theory Spec2Isabelle
  imports Main "HOL-Library.Multiset"
begin

section \<open>Values, arrays and grids\<close>

text \<open>
  A grid of \<^verbatim>\<open>src/App.js\<close> is a JavaScript array of row arrays whose cells are
  \<^verbatim>\<open>null\<close> or a number.  Reading an array past its end gives \<^verbatim>\<open>undefined\<close>, reading a
  property of \<^verbatim>\<open>undefined\<close> throws a \<^verbatim>\<open>TypeError\<close>, and assigning past the end of an
  array extends it.  All three are written out here.  A row is modelled by the values
  that its indices read, so \<open>Undefined\<close> also stands for the holes that an extending
  assignment leaves: a hole reads as \<^verbatim>\<open>undefined\<close>, and the spread \<^verbatim>\<open>[...row]\<close> turns it
  into one.  Only \<^verbatim>\<open>Array.prototype.map\<close> tells the two apart (it skips holes); the rows
  it is applied to here are rows of 9 by 9 boards, where no assignment lands past the
  end and no hole arises.
\<close>

datatype jsval = Undefined | Null | Num nat

datatype error = TypeError

type_synonym row = "jsval list"

type_synonym grid = "row list"

text \<open>\<^verbatim>\<open>r[c]\<close> on a row array.\<close>

definition cellAt :: "row \<Rightarrow> nat \<Rightarrow> jsval" where
  "cellAt r c = (if c < length r then r ! c else Undefined)"

text \<open>\<^verbatim>\<open>grid[row][col]\<close>: throws when \<^verbatim>\<open>grid[row]\<close> is \<^verbatim>\<open>undefined\<close>.\<close>

definition get :: "grid \<Rightarrow> nat \<Rightarrow> nat \<Rightarrow> error + jsval" where
  "get g r c = (if r < length g then Inr (cellAt (g ! r) c) else Inl TypeError)"

text \<open>\<^verbatim>\<open>r[c] = v\<close> on a row array: past the end the array grows.\<close>

definition rowPut :: "row \<Rightarrow> nat \<Rightarrow> jsval \<Rightarrow> row" where
  "rowPut r c v =
     (if c < length r then r[c := v]
      else r @ replicate (c - length r) Undefined @ [v])"

text \<open>\<^verbatim>\<open>grid[row][col] = v\<close>, on a grid that the caller owns.\<close>

definition put :: "grid \<Rightarrow> nat \<Rightarrow> nat \<Rightarrow> jsval \<Rightarrow> error + grid" where
  "put g r c v = (if r < length g then Inr (g[r := rowPut (g ! r) c v]) else Inl TypeError)"

text \<open>
  The same read with the indices a caller may pass to a handler: any integer.  A
  negative index is no element of an array, so it reads \<^verbatim>\<open>undefined\<close> like an index
  past the end.
\<close>

definition getI :: "grid \<Rightarrow> int \<Rightarrow> int \<Rightarrow> error + jsval" where
  "getI g r c =
     (if 0 \<le> r \<and> r < int (length g)
      then Inr (if 0 \<le> c then cellAt (g ! nat r) (nat c) else Undefined)
      else Inl TypeError)"

text \<open>\<^verbatim>\<open>grid.map((row) => [...row])\<close> as a value: a grid with the same cells.\<close>

definition copyGrid :: "grid \<Rightarrow> grid" where
  "copyGrid g = map (\<lambda>row. map (\<lambda>cell. cell) row) g"

section \<open>Constraint checker\<close>

text \<open>A \<^verbatim>\<open>for\<close> loop that returns as soon as its body finds a match, or throws.\<close>

fun anyE :: "('a \<Rightarrow> error + bool) \<Rightarrow> 'a list \<Rightarrow> error + bool" where
  "anyE p [] = Inr False"
| "anyE p (x # xs) =
     (case p x of Inl e \<Rightarrow> Inl e
      | Inr found \<Rightarrow> if found then Inr True else anyE p xs)"

text \<open>
  \<^verbatim>\<open>isValidPlacement\<close> (App.js lines 6-19).  The first loop reads \<^verbatim>\<open>grid[row][i]\<close> and,
  only when that is not \<^verbatim>\<open>num\<close>, \<^verbatim>\<open>grid[i][col]\<close>; the second scans the box whose corner
  is \<^verbatim>\<open>Math.floor(row / 3) * 3\<close>, \<^verbatim>\<open>Math.floor(col / 3) * 3\<close>.
\<close>

definition lineHit :: "grid \<Rightarrow> nat \<Rightarrow> nat \<Rightarrow> nat \<Rightarrow> nat \<Rightarrow> error + bool" where
  "lineHit g row col num i =
     (case get g row i of Inl e \<Rightarrow> Inl e
      | Inr v \<Rightarrow> if v = Num num then Inr True
                else (case get g i col of Inl e \<Rightarrow> Inl e | Inr w \<Rightarrow> Inr (w = Num num)))"

definition boxHit :: "grid \<Rightarrow> nat \<Rightarrow> nat \<Rightarrow> nat \<Rightarrow> nat \<times> nat \<Rightarrow> error + bool" where
  "boxHit g startRow startCol num ij =
     (case get g (startRow + fst ij) (startCol + snd ij) of Inl e \<Rightarrow> Inl e
      | Inr v \<Rightarrow> Inr (v = Num num))"

definition isValidPlacement :: "grid \<Rightarrow> nat \<Rightarrow> nat \<Rightarrow> nat \<Rightarrow> error + bool" where
  "isValidPlacement g row col num =
     (case anyE (lineHit g row col num) [0..<9] of Inl e \<Rightarrow> Inl e
      | Inr found \<Rightarrow>
          if found then Inr False
          else (case anyE (boxHit g (row div 3 * 3) (col div 3 * 3) num)
                       (concat (map (\<lambda>i. map (\<lambda>j. (i, j)) [0..<3]) [0..<3])) of
                  Inl e \<Rightarrow> Inl e
                | Inr found' \<Rightarrow> Inr (\<not> found')))"

section \<open>Grid generator\<close>

text \<open>
  \<^verbatim>\<open>generateSudokuGrid\<close> (lines 22-48).  The random source is a parameter: \<open>shuffle k\<close>
  is the array that the \<open>k\<close>-th evaluation of
  \<^verbatim>\<open>[...Array(9).keys()].map((x) => x + 1).sort(() => Math.random() - 0.5)\<close> yields
  (the numbers 1 to 9 in the order that the comparator's random answers lead the sort
  to), and the number of shuffles drawn so far is threaded through the calls.

  \<^verbatim>\<open>fillGrid\<close> mutates the one local grid, so the grid is passed in and returned.  The two
  nested \<^verbatim>\<open>for\<close> loops stop at the first \<^verbatim>\<open>null\<close> cell in row-major order (they return
  inside it), which \<open>firstNull\<close> finds; \<open>Scan\<close> is a call of \<^verbatim>\<open>fillGrid\<close>, and
  \<open>Try row col nums\<close> is the \<^verbatim>\<open>for (const num of numbers)\<close> loop at that cell with \<open>nums\<close>
  still to try.  A failed recursive call hands back the grid as it left it, and the
  caller then assigns \<^verbatim>\<open>grid[row][col] = null\<close>.
\<close>

definition cells :: "(nat \<times> nat) list" where
  "cells = concat (map (\<lambda>row. map (\<lambda>col. (row, col)) [0..<9]) [0..<9])"

fun firstNull :: "grid \<Rightarrow> (nat \<times> nat) list \<Rightarrow> error + (nat \<times> nat) option" where
  "firstNull g [] = Inr None"
| "firstNull g (rc # rest) =
     (case get g (fst rc) (snd rc) of Inl e \<Rightarrow> Inl e
      | Inr v \<Rightarrow> if v = Null then Inr (Some rc) else firstNull g rest)"

datatype frame = Scan | Try nat nat "nat list"

partial_function (option) fillGrid ::
  "(nat \<Rightarrow> nat list) \<Rightarrow> frame \<Rightarrow> grid \<Rightarrow> nat \<Rightarrow> (error + bool \<times> grid \<times> nat) option" where
  "fillGrid shuffle fr grid k =
     (case fr of
        Scan \<Rightarrow>
          (case firstNull grid cells of Inl e \<Rightarrow> Some (Inl e)
           | Inr None \<Rightarrow> Some (Inr (True, grid, k))
           | Inr (Some rc) \<Rightarrow> fillGrid shuffle (Try (fst rc) (snd rc) (shuffle k)) grid (k + 1))
      | Try row col nums \<Rightarrow>
          (case nums of
             [] \<Rightarrow> Some (Inr (False, grid, k))
           | num # rest \<Rightarrow>
               (case isValidPlacement grid row col num of Inl e \<Rightarrow> Some (Inl e)
                | Inr ok \<Rightarrow>
                    if ok then
                      (case put grid row col (Num num) of Inl e \<Rightarrow> Some (Inl e)
                       | Inr placed \<Rightarrow>
                           Option.bind (fillGrid shuffle Scan placed k)
                             (\<lambda>res. case res of Inl e \<Rightarrow> Some (Inl e)
                                | Inr (filled, grid', k') \<Rightarrow>
                                    if filled then Some (Inr (True, grid', k'))
                                    else (case put grid' row col Null of Inl e \<Rightarrow> Some (Inl e)
                                          | Inr cleared \<Rightarrow>
                                              fillGrid shuffle (Try row col rest) cleared k')))
                    else fillGrid shuffle (Try row col rest) grid k)))"

declare fillGrid.simps [code]

definition emptyGrid :: grid where
  "emptyGrid = replicate 9 (replicate 9 Null)"

definition generateSudokuGrid :: "(nat \<Rightarrow> nat list) \<Rightarrow> (error + grid) option" where
  "generateSudokuGrid shuffle =
     (case fillGrid shuffle Scan emptyGrid 0 of None \<Rightarrow> None
      | Some (Inl e) \<Rightarrow> Some (Inl e)
      | Some (Inr (filled, grid, k)) \<Rightarrow> Some (Inr grid))"

section \<open>Puzzle deriver\<close>

text \<open>
  \<^verbatim>\<open>createPuzzle\<close> (lines 51-66).  \<open>rnd i\<close> is the value of the \<open>i\<close>-th evaluation of
  \<^verbatim>\<open>Math.floor(Math.random() * 9)\<close>; each turn of the loop draws two of them.  The
  \<^verbatim>\<open>while\<close> loop has no bound in the source, so it is a partial function: \<open>None\<close> is a
  loop that never ends.  \<^verbatim>\<open>difficulty\<close> is a count of cells (the callers pass 40, the
  default is 30), a natural number.
\<close>

partial_function (option) removeCells ::
  "(nat \<Rightarrow> nat) \<Rightarrow> nat \<Rightarrow> grid \<Rightarrow> nat \<Rightarrow> (error + grid) option" where
  "removeCells rnd i puzzle attempts =
     (if attempts > 0 then
        (case get puzzle (rnd i) (rnd (i + 1)) of Inl e \<Rightarrow> Some (Inl e)
         | Inr v \<Rightarrow>
             if v \<noteq> Null then
               (case put puzzle (rnd i) (rnd (i + 1)) Null of Inl e \<Rightarrow> Some (Inl e)
                | Inr puzzle' \<Rightarrow> removeCells rnd (i + 2) puzzle' (attempts - 1))
             else removeCells rnd (i + 2) puzzle attempts)
      else Some (Inr puzzle))"

declare removeCells.simps [code]

definition createPuzzle :: "(nat \<Rightarrow> nat) \<Rightarrow> grid \<Rightarrow> nat \<Rightarrow> (error + grid) option" where
  "createPuzzle rnd grid difficulty = removeCells rnd 0 (copyGrid grid) difficulty"

section \<open>The puzzle deriver on a store of arrays\<close>

text \<open>
  Whether \<^verbatim>\<open>createPuzzle\<close> changes its argument is a question about JavaScript's
  arrays as objects, so here the rows live in a store: the list of the row arrays
  allocated so far, an address being an index into it.  A grid is the list of the
  addresses of its rows (the function never assigns to an outer array, only to rows
  through \<^verbatim>\<open>puzzle[row][col] = null\<close>).  \<^verbatim>\<open>grid.map((row) => [...row])\<close> allocates one new
  row per row of the argument, in order; an address that names no array stands for an
  element that cannot be spread, which throws.  The rows of the copy are arrays of
  the store, so in \<open>createPuzzleIn\<close> the loop's test \<open>puzzle ! rnd i < length h\<close> holds
  whenever \<^verbatim>\<open>puzzle[row]\<close> is defined.
\<close>

type_synonym addr = nat

type_synonym store = "row list"

fun copyRows :: "store \<Rightarrow> addr list \<Rightarrow> (error + addr list) \<times> store" where
  "copyRows h [] = (Inr [], h)"
| "copyRows h (a # as) =
     (if a < length h then
        (case copyRows (h @ [h ! a]) as of
           (Inl e, h') \<Rightarrow> (Inl e, h')
         | (Inr ps, h') \<Rightarrow> (Inr (length h # ps), h'))
      else (Inl TypeError, h))"

partial_function (option) removeCellsIn ::
  "(nat \<Rightarrow> nat) \<Rightarrow> nat \<Rightarrow> addr list \<Rightarrow> store \<Rightarrow> nat \<Rightarrow> ((error + addr list) \<times> store) option" where
  "removeCellsIn rnd i puzzle h attempts =
     (if attempts > 0 then
        (if rnd i < length puzzle \<and> puzzle ! rnd i < length h then
           (if cellAt (h ! (puzzle ! rnd i)) (rnd (i + 1)) \<noteq> Null then
              removeCellsIn rnd (i + 2) puzzle
                (h[puzzle ! rnd i := rowPut (h ! (puzzle ! rnd i)) (rnd (i + 1)) Null])
                (attempts - 1)
            else removeCellsIn rnd (i + 2) puzzle h attempts)
         else Some (Inl TypeError, h))
      else Some (Inr puzzle, h))"

declare removeCellsIn.simps [code]

definition createPuzzleIn ::
  "(nat \<Rightarrow> nat) \<Rightarrow> store \<Rightarrow> addr list \<Rightarrow> nat \<Rightarrow> ((error + addr list) \<times> store) option" where
  "createPuzzleIn rnd h grid difficulty =
     (case copyRows h grid of
        (Inl e, h') \<Rightarrow> Some (Inl e, h')
      | (Inr puzzle, h') \<Rightarrow> removeCellsIn rnd 0 puzzle h' difficulty)"

text \<open>The grid that a list of row addresses denotes in a store.\<close>

definition gridOf :: "store \<Rightarrow> addr list \<Rightarrow> grid" where
  "gridOf h as = map (\<lambda>a. h ! a) as"

section \<open>Session state machine\<close>

text \<open>
  The six \<^verbatim>\<open>useState\<close> cells of \<^verbatim>\<open>App\<close> (lines 69-74).  A handler reads the state of the
  render it belongs to and either returns the next state or throws before any setter
  is called.  \<^verbatim>\<open>historyIndex\<close> only ever moves by the guarded \<^verbatim>\<open>- 1\<close> and \<^verbatim>\<open>+ 1\<close> below,
  so it is a natural number.  The alert of \<^verbatim>\<open>handleNumberClick\<close> is the user interface's
  and leaves the state as it is.
\<close>

record session =
  solution :: grid
  originalPuzzle :: grid
  puzzle :: grid
  history :: "grid list"
  historyIndex :: nat
  selectedCell :: "(int \<times> int) option"

text \<open>The initial values of lines 69-74, for the two grids of lines 69 and 70.\<close>

definition initSession :: "grid \<Rightarrow> grid \<Rightarrow> session" where
  "initSession sol orig =
     \<lparr>solution = sol, originalPuzzle = orig, puzzle = copyGrid orig,
      history = [orig], historyIndex = 0, selectedCell = None\<rparr>"

definition newSession :: "(nat \<Rightarrow> nat list) \<Rightarrow> (nat \<Rightarrow> nat) \<Rightarrow> (error + session) option" where
  "newSession shuffle rnd =
     (case generateSudokuGrid shuffle of None \<Rightarrow> None
      | Some (Inl e) \<Rightarrow> Some (Inl e)
      | Some (Inr sol) \<Rightarrow>
          (case createPuzzle rnd sol 40 of None \<Rightarrow> None
           | Some (Inl e) \<Rightarrow> Some (Inl e)
           | Some (Inr orig) \<Rightarrow> Some (Inr (initSession sol orig))))"

text \<open>\<^verbatim>\<open>handleCellClick\<close> (lines 76-79).\<close>

definition handleCellClick :: "int \<Rightarrow> int \<Rightarrow> session \<Rightarrow> error + session" where
  "handleCellClick row col s =
     (case getI (originalPuzzle s) row col of Inl e \<Rightarrow> Inl e
      | Inr v \<Rightarrow> if v \<noteq> Null then Inr s else Inr (s\<lparr>selectedCell := Some (row, col)\<rparr>))"

text \<open>
  \<^verbatim>\<open>handleNumberClick\<close> (lines 81-99).  The write \<^verbatim>\<open>newPuzzle[row][col] = num\<close> is
  reached only when \<^verbatim>\<open>originalPuzzle[row][col] === null\<close>, which no negative index
  satisfies, so there \<open>row\<close> and \<open>col\<close> are array indices.  \<^verbatim>\<open>history.slice(0, n)\<close> is
  \<open>take n\<close>.
\<close>

definition handleNumberClick :: "nat \<Rightarrow> session \<Rightarrow> error + session" where
  "handleNumberClick num s =
     (case selectedCell s of None \<Rightarrow> Inr s
      | Some rc \<Rightarrow>
          (case getI (originalPuzzle s) (fst rc) (snd rc) of Inl e \<Rightarrow> Inl e
           | Inr v \<Rightarrow>
               if v = Null then
                 (case put (copyGrid (puzzle s)) (nat (fst rc)) (nat (snd rc)) (Num num) of
                    Inl e \<Rightarrow> Inl e
                  | Inr newPuzzle \<Rightarrow>
                      (let newHistory = take (historyIndex s + 1) (history s) @ [newPuzzle]
                       in Inr (s\<lparr>history := newHistory,
                                 historyIndex := length newHistory - 1,
                                 puzzle := newPuzzle,
                                 selectedCell := None\<rparr>)))
               else Inr s))"

text \<open>
  \<^verbatim>\<open>undo\<close> and \<^verbatim>\<open>redo\<close> (lines 101-113).  \<^verbatim>\<open>history[i]\<close> past the end is \<^verbatim>\<open>undefined\<close>;
  with that as the puzzle the next render throws in \<^verbatim>\<open>puzzle.map\<close> (line 181).  The
  guard of \<^verbatim>\<open>redo\<close>, \<^verbatim>\<open>historyIndex < history.length - 1\<close>, is written without the
  subtraction.
\<close>

definition snapshotAt :: "grid list \<Rightarrow> nat \<Rightarrow> error + grid" where
  "snapshotAt h i = (if i < length h then Inr (h ! i) else Inl TypeError)"

definition undo :: "session \<Rightarrow> error + session" where
  "undo s =
     (if historyIndex s > 0 then
        (case snapshotAt (history s) (historyIndex s - 1) of Inl e \<Rightarrow> Inl e
         | Inr p \<Rightarrow> Inr (s\<lparr>historyIndex := historyIndex s - 1, puzzle := p\<rparr>))
      else Inr s)"

definition redo :: "session \<Rightarrow> error + session" where
  "redo s =
     (if historyIndex s + 1 < length (history s) then
        (case snapshotAt (history s) (historyIndex s + 1) of Inl e \<Rightarrow> Inl e
         | Inr p \<Rightarrow> Inr (s\<lparr>historyIndex := historyIndex s + 1, puzzle := p\<rparr>))
      else Inr s)"

text \<open>
  \<^verbatim>\<open>reset\<close> (lines 115-119): two calls of \<^verbatim>\<open>createPuzzle\<close>, each with the draws it makes
  (\<open>rnd1\<close> for line 116, \<open>rnd2\<close> for line 117).
\<close>

definition reset :: "(nat \<Rightarrow> nat) \<Rightarrow> (nat \<Rightarrow> nat) \<Rightarrow> session \<Rightarrow> (error + session) option" where
  "reset rnd1 rnd2 s =
     (case createPuzzle rnd1 (solution s) 40 of None \<Rightarrow> None
      | Some (Inl e) \<Rightarrow> Some (Inl e)
      | Some (Inr p1) \<Rightarrow>
          (case createPuzzle rnd2 (solution s) 40 of None \<Rightarrow> None
           | Some (Inl e) \<Rightarrow> Some (Inl e)
           | Some (Inr p2) \<Rightarrow>
               Some (Inr (s\<lparr>puzzle := p1, history := [p2], historyIndex := 0\<rparr>))))"

text \<open>
  \<^verbatim>\<open>clearUserInputs\<close> (lines 167-175).  \<^verbatim>\<open>map\<close> passes each element with its index; the
  callback reads \<^verbatim>\<open>originalPuzzle[rowIndex][colIndex]\<close>, which throws when the puzzle has
  a cell in a row that the original puzzle lacks.
\<close>

fun mapE :: "('a \<Rightarrow> error + 'b) \<Rightarrow> 'a list \<Rightarrow> error + 'b list" where
  "mapE f [] = Inr []"
| "mapE f (x # xs) =
     (case f x of Inl e \<Rightarrow> Inl e
      | Inr y \<Rightarrow> (case mapE f xs of Inl e \<Rightarrow> Inl e | Inr ys \<Rightarrow> Inr (y # ys)))"

definition clearCell :: "grid \<Rightarrow> nat \<Rightarrow> nat \<times> jsval \<Rightarrow> error + jsval" where
  "clearCell orig rowIndex ic =
     (case get orig rowIndex (fst ic) of Inl e \<Rightarrow> Inl e
      | Inr v \<Rightarrow> Inr (if v = Null then Null else snd ic))"

definition clearedGrid :: "grid \<Rightarrow> grid \<Rightarrow> error + grid" where
  "clearedGrid orig p =
     mapE (\<lambda>ir. mapE (clearCell orig (fst ir)) (enumerate 0 (snd ir))) (enumerate 0 p)"

definition clearUserInputs :: "session \<Rightarrow> error + session" where
  "clearUserInputs s =
     (case clearedGrid (originalPuzzle s) (puzzle s) of Inl e \<Rightarrow> Inl e
      | Inr clearedPuzzle \<Rightarrow>
          Inr (s\<lparr>puzzle := clearedPuzzle, history := [clearedPuzzle], historyIndex := 0\<rparr>))"

text \<open>The handler of the "Generate New Puzzle" button (lines 204-213).\<close>

definition regenerate :: "(nat \<Rightarrow> nat list) \<Rightarrow> (nat \<Rightarrow> nat) \<Rightarrow> session \<Rightarrow> (error + session) option" where
  "regenerate shuffle rnd s =
     (case generateSudokuGrid shuffle of None \<Rightarrow> None
      | Some (Inl e) \<Rightarrow> Some (Inl e)
      | Some (Inr newSolution) \<Rightarrow>
          (case createPuzzle rnd newSolution 40 of None \<Rightarrow> None
           | Some (Inl e) \<Rightarrow> Some (Inl e)
           | Some (Inr newOriginalPuzzle) \<Rightarrow>
               Some (Inr (s\<lparr>solution := newSolution,
                            originalPuzzle := newOriginalPuzzle,
                            puzzle := copyGrid newOriginalPuzzle,
                            history := [newOriginalPuzzle],
                            historyIndex := 0\<rparr>))))"

text \<open>
  The operations of a session and a run of them: the handlers one after another, each
  on the state the one before returned.  A run ends where a handler throws or never
  returns.
\<close>

datatype operation =
    SelectCell int int
  | EnterValue nat
  | Undo
  | Redo
  | Reset "nat \<Rightarrow> nat" "nat \<Rightarrow> nat"
  | ClearUserInputs
  | Regenerate "nat \<Rightarrow> nat list" "nat \<Rightarrow> nat"

fun perform :: "operation \<Rightarrow> session \<Rightarrow> (error + session) option" where
  "perform (SelectCell row col) s = Some (handleCellClick row col s)"
| "perform (EnterValue num) s = Some (handleNumberClick num s)"
| "perform Undo s = Some (undo s)"
| "perform Redo s = Some (redo s)"
| "perform (Reset rnd1 rnd2) s = reset rnd1 rnd2 s"
| "perform ClearUserInputs s = Some (clearUserInputs s)"
| "perform (Regenerate shuffle rnd) s = regenerate shuffle rnd s"

fun run :: "operation list \<Rightarrow> session \<Rightarrow> (error + session) option" where
  "run [] s = Some (Inr s)"
| "run (x # xs) s =
     (case perform x s of None \<Rightarrow> None
      | Some (Inl e) \<Rightarrow> Some (Inl e)
      | Some (Inr s') \<Rightarrow> run xs s')"

fun isReset :: "operation \<Rightarrow> bool" where
  "isReset (Reset rnd1 rnd2) = True"
| "isReset x = False"

section \<open>Properties\<close>

subsection \<open>Boards\<close>

text \<open>The shape of a board: nine rows of nine cells.\<close>

definition gridShape :: "grid \<Rightarrow> bool" where
  "gridShape g = (length g = 9 \<and> list_all (\<lambda>r. length r = 9) g)"

text \<open>On a board, \<open>put\<close> is this update of one cell (lemma \<open>gridShape_put\<close>).\<close>

definition setCell :: "grid \<Rightarrow> nat \<Rightarrow> nat \<Rightarrow> jsval \<Rightarrow> grid" where
  "setCell g r c v = g[r := (g ! r)[c := v]]"

text \<open>The number of empty (\<^verbatim>\<open>null\<close>) cells, and of cells that are not \<^verbatim>\<open>null\<close>.\<close>

definition holes :: "grid \<Rightarrow> nat" where
  "holes g = sum_list (map (\<lambda>r. count_list r Null) g)"

definition nonEmpty :: "grid \<Rightarrow> nat" where
  "nonEmpty g = sum_list (map (\<lambda>r. length (filter (\<lambda>v. v \<noteq> Null) r)) g)"

text \<open>A fully filled board: every cell holds a number.\<close>

fun isNum :: "jsval \<Rightarrow> bool" where
  "isNum (Num n) = True"
| "isNum v = False"

definition fullGrid :: "grid \<Rightarrow> bool" where
  "fullGrid g = (gridShape g \<and> list_all (list_all isNum) g)"

text \<open>\<open>derivedFrom p q\<close>: every cell of \<open>q\<close> that is not empty is the cell of \<open>p\<close>.\<close>

definition derivedFrom :: "grid \<Rightarrow> grid \<Rightarrow> bool" where
  "derivedFrom p q = (\<forall>r<9. \<forall>c<9. q ! r ! c \<noteq> Null \<longrightarrow> q ! r ! c = p ! r ! c)"

subsection \<open>The random source\<close>

text \<open>
  The first \<open>k\<close> cells that \<^verbatim>\<open>createPuzzle\<close> picks when its draws start at index \<open>i\<close>, and
  how many distinct non-empty cells of \<open>g\<close> are among them.  A shuffle stream is
  well-formed when every shuffle is a permutation of 1..9.
\<close>

definition drawn :: "(nat \<Rightarrow> nat) \<Rightarrow> nat \<Rightarrow> nat \<Rightarrow> (nat \<times> nat) list" where
  "drawn rnd i k = map (\<lambda>j. (rnd (i + 2 * j), rnd (i + 2 * j + 1))) [0..<k]"

definition visited :: "(nat \<Rightarrow> nat) \<Rightarrow> nat \<Rightarrow> nat \<Rightarrow> grid \<Rightarrow> nat" where
  "visited rnd i k g =
     length (remdups (filter (\<lambda>rc. g ! fst rc ! snd rc \<noteq> Null) (drawn rnd i k)))"

definition shuffled :: "(nat \<Rightarrow> nat list) \<Rightarrow> bool" where
  "shuffled shuffle = (\<forall>k. mset (shuffle k) = mset [1..<10])"

subsection \<open>Solved and partly filled grids\<close>

text \<open>
  Two cells are related when they share a row, a column or a 3 by 3 box; \<open>clash g r c n\<close>
  says that \<open>n\<close> stands in a cell related to \<open>(r, c)\<close>, which is what \<^verbatim>\<open>isValidPlacement\<close>
  looks for (lemma \<open>isValidPlacement_board\<close>).  A grid is consistent when it is a board
  whose cells are empty or hold 1..9 and no filled cell's value stands in another
  related cell.
\<close>

definition related :: "nat \<Rightarrow> nat \<Rightarrow> nat \<Rightarrow> nat \<Rightarrow> bool" where
  "related r c r' c' = (r' = r \<or> c' = c \<or> (r' div 3 = r div 3 \<and> c' div 3 = c div 3))"

definition clash :: "grid \<Rightarrow> nat \<Rightarrow> nat \<Rightarrow> nat \<Rightarrow> bool" where
  "clash g r c n = (\<exists>r'<9. \<exists>c'<9. related r c r' c' \<and> g ! r' ! c' = Num n)"

fun cellOk :: "jsval \<Rightarrow> bool" where
  "cellOk Undefined = False"
| "cellOk Null = True"
| "cellOk (Num n) = (1 \<le> n \<and> n \<le> 9)"

definition consistentAt :: "grid \<Rightarrow> nat \<times> nat \<Rightarrow> bool" where
  "consistentAt g rc =
     (cellOk (g ! fst rc ! snd rc)
      \<and> list_all (\<lambda>rc'. related (fst rc) (snd rc) (fst rc') (snd rc') \<and> rc' \<noteq> rc
                          \<and> g ! fst rc ! snd rc \<noteq> Null
                        \<longrightarrow> g ! fst rc' ! snd rc' \<noteq> g ! fst rc ! snd rc) cells)"

definition consistent :: "grid \<Rightarrow> bool" where
  "consistent g = (gridShape g \<and> list_all (consistentAt g) cells)"

definition noNull :: "grid \<Rightarrow> bool" where
  "noNull g = list_all (\<lambda>rc. g ! fst rc ! snd rc \<noteq> Null) cells"

text \<open>\<open>extends s g\<close>: \<open>s\<close> is a filled consistent grid that agrees with \<open>g\<close> wherever \<open>g\<close>
  is filled.\<close>

definition extends :: "grid \<Rightarrow> grid \<Rightarrow> bool" where
  "extends s g = (consistent s \<and> noNull s
                  \<and> (\<forall>r<9. \<forall>c<9. g ! r ! c \<noteq> Null \<longrightarrow> s ! r ! c = g ! r ! c))"

text \<open>
  The rows, columns and boxes of a grid (boxes numbered row by row), and the solved
  grid: each of them is a permutation of 1..9.
\<close>

definition rowOf :: "grid \<Rightarrow> nat \<Rightarrow> row" where
  "rowOf g i = g ! i"

definition colOf :: "grid \<Rightarrow> nat \<Rightarrow> row" where
  "colOf g j = map (\<lambda>i. g ! i ! j) [0..<9]"

definition boxOf :: "grid \<Rightarrow> nat \<Rightarrow> row" where
  "boxOf g b = map (\<lambda>k. g ! (b div 3 * 3 + k div 3) ! (b mod 3 * 3 + k mod 3)) [0..<9]"

definition oneToNine :: "row \<Rightarrow> bool" where
  "oneToNine xs = (mset xs = mset (map Num [1..<10]))"

definition validSolution :: "grid \<Rightarrow> bool" where
  "validSolution g =
     (gridShape g
      \<and> list_all (\<lambda>i. oneToNine (rowOf g i) \<and> oneToNine (colOf g i) \<and> oneToNine (boxOf g i))
           [0..<9])"

definition cellsInRange :: "grid \<Rightarrow> bool" where
  "cellsInRange g = list_all (list_all (\<lambda>v. v \<in> set (map Num [1..<10]))) g"

subsection \<open>What the loops establish\<close>

text \<open>
  The statements proved of the partial functions by induction: of \<open>removeCells\<close> when
  it returns, of a call of \<^verbatim>\<open>fillGrid\<close> and of its candidate loop (both return; on
  success the grid is filled and consistent, on failure the grid is the one passed in
  and nothing extends it, in the loop: with one of the candidates at the cell), and of
  the store model (rows that existed keep their cells; the store model's result reads
  as the value model's).
\<close>

definition removeCellsPost :: "(nat \<Rightarrow> nat) \<Rightarrow> grid \<Rightarrow> nat \<Rightarrow> error + grid \<Rightarrow> bool" where
  "removeCellsPost rnd p a res =
     (gridShape p \<longrightarrow> (\<forall>j. rnd j < 9)
      \<longrightarrow> (\<exists>q. res = Inr q \<and> gridShape q \<and> holes q = holes p + a \<and> derivedFrom p q))"

definition scanOk :: "(nat \<Rightarrow> nat list) \<Rightarrow> grid \<Rightarrow> nat \<Rightarrow> bool" where
  "scanOk shuffle g k =
     (\<exists>b g' k'. fillGrid shuffle Scan g k = Some (Inr (b, g', k'))
        \<and> (if b then consistent g' \<and> noNull g' else g' = g \<and> (\<forall>s. \<not> extends s g)))"

definition tryOk :: "(nat \<Rightarrow> nat list) \<Rightarrow> nat \<Rightarrow> nat \<Rightarrow> nat list \<Rightarrow> grid \<Rightarrow> nat \<Rightarrow> bool" where
  "tryOk shuffle r c nums g k =
     (\<exists>b g' k'. fillGrid shuffle (Try r c nums) g k = Some (Inr (b, g', k'))
        \<and> (if b then consistent g' \<and> noNull g'
            else g' = g \<and> (\<forall>s. extends s g \<longrightarrow> s ! r ! c \<notin> Num ` set nums)))"

definition freshRows :: "nat \<Rightarrow> error + addr list \<Rightarrow> bool" where
  "freshRows n res = (case res of Inl e \<Rightarrow> True | Inr ps \<Rightarrow> list_all (\<lambda>p. n \<le> p) ps)"

definition framePost :: "nat \<Rightarrow> addr list \<Rightarrow> store \<Rightarrow> (error + addr list) \<times> store \<Rightarrow> bool" where
  "framePost n ps h out =
     (list_all (\<lambda>p. n \<le> p) ps \<longrightarrow> length (snd out) = length h \<and> take n (snd out) = take n h)"

definition validRows :: "store \<Rightarrow> addr list \<Rightarrow> bool" where
  "validRows h ps = (distinct ps \<and> list_all (\<lambda>p. p < length h) ps)"

definition abstractOut :: "(error + addr list) \<times> store \<Rightarrow> error + grid" where
  "abstractOut out = (case fst out of Inl e \<Rightarrow> Inl e | Inr qs \<Rightarrow> Inr (gridOf (snd out) qs))"

definition refinesPost :: "(nat \<Rightarrow> nat) \<Rightarrow> nat \<Rightarrow> addr list \<Rightarrow> store \<Rightarrow> nat
    \<Rightarrow> (error + addr list) \<times> store \<Rightarrow> bool" where
  "refinesPost rnd i ps h a out =
     (validRows h ps \<longrightarrow> removeCells rnd i (gridOf h ps) a = Some (abstractOut out))"

definition returnsIn :: "(nat \<Rightarrow> nat) \<Rightarrow> nat \<Rightarrow> grid \<Rightarrow> nat \<Rightarrow> bool" where
  "returnsIn rnd i p a =
     (\<forall>h ps. validRows h ps \<and> gridOf h ps = p \<longrightarrow> (\<exists>out. removeCellsIn rnd i ps h a = Some out))"

subsection \<open>Invariants of a session\<close>

text \<open>
  The history invariant: the log is not empty, the cursor is an index of it, and the
  snapshot under the cursor is the current puzzle.
\<close>

definition historyInvariant :: "session \<Rightarrow> bool" where
  "historyInvariant s =
     (history s \<noteq> [] \<and> historyIndex s < length (history s)
      \<and> history s ! historyIndex s = puzzle s)"

fun noReset :: "operation list \<Rightarrow> bool" where
  "noReset [] = True"
| "noReset (x # xs) = (\<not> isReset x \<and> noReset xs)"

text \<open>
  The given cells: the original puzzle is a board whose given cells are the
  solution's, and the current puzzle and every snapshot are boards that agree with the
  original puzzle on its given cells.  \<open>randomOk\<close> holds of an operation whose draws
  are in 0..8 and whose shuffles are permutations.
\<close>

definition agreesOnGiven :: "grid \<Rightarrow> grid \<Rightarrow> bool" where
  "agreesOnGiven orig p = (gridShape p \<and> derivedFrom p orig)"

definition givenInvariant :: "session \<Rightarrow> bool" where
  "givenInvariant s =
     (gridShape (originalPuzzle s)
      \<and> derivedFrom (solution s) (originalPuzzle s)
      \<and> agreesOnGiven (originalPuzzle s) (puzzle s)
      \<and> list_all (agreesOnGiven (originalPuzzle s)) (history s))"

fun randomOk :: "operation \<Rightarrow> bool" where
  "randomOk (Regenerate shuffle rnd) = (shuffled shuffle \<and> (\<forall>i. rnd i < 9))"
| "randomOk (Reset rnd1 rnd2) = ((\<forall>i. rnd1 i < 9) \<and> (\<forall>i. rnd2 i < 9))"
| "randomOk x = True"

section \<open>Example inputs\<close>

text \<open>A solved grid, and the puzzle that blanking its first 40 cells in row-major
  order leaves.\<close>

definition exampleSolution :: grid where
  "exampleSolution = map (map Num)
     [[1, 2, 3, 4, 5, 6, 7, 8, 9],
      [4, 5, 6, 7, 8, 9, 1, 2, 3],
      [7, 8, 9, 1, 2, 3, 4, 5, 6],
      [2, 1, 4, 3, 6, 5, 8, 9, 7],
      [3, 6, 5, 8, 9, 7, 2, 1, 4],
      [8, 9, 7, 2, 1, 4, 3, 6, 5],
      [5, 3, 1, 6, 4, 2, 9, 7, 8],
      [6, 4, 2, 9, 7, 8, 5, 3, 1],
      [9, 7, 8, 5, 3, 1, 6, 4, 2]]"

definition examplePuzzle :: grid where
  "examplePuzzle =
     [[Null, Null, Null, Null, Null, Null, Null, Null, Null],
      [Null, Null, Null, Null, Null, Null, Null, Null, Null],
      [Null, Null, Null, Null, Null, Null, Null, Null, Null],
      [Null, Null, Null, Null, Null, Null, Null, Null, Null],
      [Null, Null, Null, Null, Num 9, Num 7, Num 2, Num 1, Num 4],
      [Num 8, Num 9, Num 7, Num 2, Num 1, Num 4, Num 3, Num 6, Num 5],
      [Num 5, Num 3, Num 1, Num 6, Num 4, Num 2, Num 9, Num 7, Num 8],
      [Num 6, Num 4, Num 2, Num 9, Num 7, Num 8, Num 5, Num 3, Num 1],
      [Num 9, Num 7, Num 8, Num 5, Num 3, Num 1, Num 6, Num 4, Num 2]]"

text \<open>
  Draws that visit the cells in row-major order from the top (the \<open>j\<close>-th pick is row
  \<open>j div 9\<close>, column \<open>j mod 9\<close>), draws that visit them row by row from the bottom row
  up, and shuffles that rotate \<open>[1, ..., 9]\<close> by one more place each time.
\<close>

definition exampleDraws :: "nat \<Rightarrow> nat" where
  "exampleDraws i = (if even i then (i div 2) div 9 mod 9 else (i div 2) mod 9)"

definition otherDraws :: "nat \<Rightarrow> nat" where
  "otherDraws i = (if even i then 8 - (i div 2) div 9 mod 9 else (i div 2) mod 9)"

definition exampleShuffle :: "nat \<Rightarrow> nat list" where
  "exampleShuffle k = rotate k [1..<10]"

text \<open>Shuffles whose \<open>k\<close>-th array starts with the example solution's \<open>k\<close>-th cell
  (cells counted in row-major order), so that the search never has to back up.\<close>

definition guidedShuffle :: "nat \<Rightarrow> nat list" where
  "guidedShuffle k =
     (case concat exampleSolution ! (k mod 81) of Num n \<Rightarrow> rotate (n - 1) [1..<10]
      | _ \<Rightarrow> [1..<10])"

text \<open>
  The session that lines 69-74 build from the example grids, a run of handlers on
  it, and a session two moves into the example puzzle: its log holds three snapshots,
  the cursor is on the last one, and a third editable cell is selected.
\<close>

definition exampleSession :: session where
  "exampleSession = initSession exampleSolution examplePuzzle"

definition exampleOps :: "operation list" where
  "exampleOps = [SelectCell 0 0, EnterValue 5, SelectCell 0 1, EnterValue 3, Undo,
                 SelectCell 0 2, EnterValue 4, Redo, Undo, Undo]"

definition threeMoves :: session where
  "threeMoves =
     \<lparr>solution = exampleSolution, originalPuzzle = examplePuzzle,
      puzzle = examplePuzzle[0 := (examplePuzzle ! 0)[0 := Num 5, 1 := Num 3]],
      history = [examplePuzzle,
                 examplePuzzle[0 := (examplePuzzle ! 0)[0 := Num 5]],
                 examplePuzzle[0 := (examplePuzzle ! 0)[0 := Num 5, 1 := Num 3]]],
      historyIndex = 2, selectedCell = Some (0, 2)\<rparr>"

section \<open>The history log\<close>

lemma copyGrid_id: "copyGrid g = g"
  by (simp add: copyGrid_def)

lemma historyInvariant_init: "historyInvariant (initSession sol orig)"
  by (simp add: historyInvariant_def initSession_def copyGrid_id)

lemma historyInvariant_select:
  "historyInvariant s \<Longrightarrow> handleCellClick row col s = Inr s' \<Longrightarrow> historyInvariant s'"
  by (auto simp: historyInvariant_def handleCellClick_def split: sum.splits if_splits)

lemma historyInvariant_enter:
  "historyInvariant s \<Longrightarrow> handleNumberClick num s = Inr s' \<Longrightarrow> historyInvariant s'"
  by (auto simp: historyInvariant_def handleNumberClick_def Let_def nth_append
      split: sum.splits if_splits option.splits)

lemma historyInvariant_undo:
  "historyInvariant s \<Longrightarrow> undo s = Inr s' \<Longrightarrow> historyInvariant s'"
  by (auto simp: historyInvariant_def undo_def snapshotAt_def split: sum.splits if_splits)

lemma historyInvariant_redo:
  "historyInvariant s \<Longrightarrow> redo s = Inr s' \<Longrightarrow> historyInvariant s'"
  by (auto simp: historyInvariant_def redo_def snapshotAt_def split: sum.splits if_splits)

lemma historyInvariant_clear:
  "clearUserInputs s = Inr s' \<Longrightarrow> historyInvariant s'"
  by (auto simp: historyInvariant_def clearUserInputs_def split: sum.splits)

lemma historyInvariant_regenerate:
  "regenerate shuffle rnd s = Some (Inr s') \<Longrightarrow> historyInvariant s'"
  by (auto simp: historyInvariant_def regenerate_def copyGrid_id split: sum.splits option.splits)

lemma historyInvariant_perform:
  "historyInvariant s \<Longrightarrow> \<not> isReset x \<Longrightarrow> perform x s = Some (Inr s') \<Longrightarrow> historyInvariant s'"
  by (cases x)
    (auto intro: historyInvariant_select historyInvariant_enter historyInvariant_undo
      historyInvariant_redo historyInvariant_clear historyInvariant_regenerate)

lemma historyInvariant_run:
  "historyInvariant s \<Longrightarrow> noReset xs \<Longrightarrow> run xs s = Some (Inr s') \<Longrightarrow> historyInvariant s'"
proof (induction xs arbitrary: s)
  case Nil
  then show ?case by simp
next
  case (Cons x xs)
  then obtain t where t: "perform x s = Some (Inr t)" and r: "run xs t = Some (Inr s')"
    by (auto split: option.splits sum.splits)
  from Cons.prems t have "historyInvariant t"
    by (auto intro: historyInvariant_perform)
  with Cons r show ?case by simp
qed

text \<open>
  C3.  From a freshly initialised session (any solution and original puzzle), after
  every finite run of handlers that returns and holds no \<^verbatim>\<open>reset\<close> (cell selections,
  number entries, undo and redo, and also \<^verbatim>\<open>clearUserInputs\<close> and the regeneration),
  the history log is not empty, \<^verbatim>\<open>historyIndex\<close> is an index of it, and the snapshot at
  \<^verbatim>\<open>historyIndex\<close> is the current puzzle.
\<close>

theorem history_invariant_holds:
  "noReset xs \<Longrightarrow> run xs (initSession sol orig) = Some (Inr s) \<Longrightarrow> historyInvariant s"
  using historyInvariant_run [OF historyInvariant_init] by blast

theorem history_invariant_holds_witness:
  "noReset exampleOps \<and>
   (\<exists>s. run exampleOps (initSession exampleSolution examplePuzzle) = Some (Inr s)
        \<and> historyInvariant s)"
proof -
  have n: "noReset exampleOps"
    by (simp add: exampleOps_def)
  have "case run exampleOps (initSession exampleSolution examplePuzzle) of
          Some (Inr s) \<Rightarrow> True | _ \<Rightarrow> False"
    by code_simp
  then obtain s where r: "run exampleOps (initSession exampleSolution examplePuzzle) = Some (Inr s)"
    by (auto split: option.splits sum.splits)
  from history_invariant_holds [OF n r] n r show ?thesis
    by blast
qed

text \<open>The session \<open>threeMoves\<close> is the example session after two entries and a third
  selection.\<close>

lemma threeMoves_reached:
  "run [SelectCell 0 0, EnterValue 5, SelectCell 0 1, EnterValue 3, SelectCell 0 2] exampleSession
     = Some (Inr threeMoves)"
  by (simp add: exampleSession_def initSession_def threeMoves_def handleCellClick_def
      handleNumberClick_def getI_def cellAt_def put_def rowPut_def copyGrid_id examplePuzzle_def
      Let_def)

text \<open>
  C4.  When \<^verbatim>\<open>handleNumberClick\<close> runs with an editable cell selected and the cursor
  anywhere in the log (so also after \<^verbatim>\<open>undo\<close> moved it back), the new log is the old
  one up to and including the cursor followed by the new snapshot, every snapshot
  after the old cursor is gone (the new log has \<open>historyIndex + 2\<close> entries), and the
  cursor is on the new snapshot, which is also the current puzzle.  The witness is
  the log \<open>[S0, S1, S2]\<close> with the cursor at 2: \<^verbatim>\<open>undo\<close> and an entry give
  \<open>[S0, S1, S3]\<close> with the cursor at 2.
\<close>

theorem enterValue_truncates_history:
  assumes sel: "selectedCell s = Some (row, col)"
    and editable: "getI (originalPuzzle s) row col = Inr Null"
    and written: "put (puzzle s) (nat row) (nat col) (Num num) = Inr snapshot"
    and cursor: "historyIndex s < length (history s)"
  shows "handleNumberClick num s =
           Inr (s\<lparr>history := take (historyIndex s + 1) (history s) @ [snapshot],
                  historyIndex := historyIndex s + 1,
                  puzzle := snapshot,
                  selectedCell := None\<rparr>)
         \<and> length (take (historyIndex s + 1) (history s) @ [snapshot]) = historyIndex s + 2
         \<and> (take (historyIndex s + 1) (history s) @ [snapshot]) ! (historyIndex s + 1) = snapshot"
  using assms
  by (simp add: handleNumberClick_def copyGrid_id Let_def nth_append min_def)

theorem enterValue_truncates_history_witness:
  "\<exists>s1 s2 S0 S1 S2 S3.
      history threeMoves = [S0, S1, S2] \<and> historyIndex threeMoves = 2
    \<and> undo threeMoves = Inr s1 \<and> historyIndex s1 = 1
    \<and> selectedCell s1 = Some (0, 2)
    \<and> getI (originalPuzzle s1) 0 2 = Inr Null
    \<and> put (puzzle s1) 0 2 (Num 4) = Inr S3
    \<and> handleNumberClick 4 s1 = Inr s2
    \<and> history s2 = [S0, S1, S3] \<and> historyIndex s2 = 2 \<and> puzzle s2 = S3 \<and> S3 \<noteq> S2"
proof -
  define s1 where "s1 = threeMoves\<lparr>historyIndex := 1, puzzle := history threeMoves ! 1\<rparr>"
  define S3 where "S3 = examplePuzzle[0 := (examplePuzzle ! 0)[0 := Num 5, 2 := Num 4]]"
  have u: "undo threeMoves = Inr s1"
    by (simp add: undo_def threeMoves_def snapshotAt_def s1_def)
  have sel: "selectedCell s1 = Some (0, 2)"
    by (simp add: s1_def threeMoves_def)
  have ed: "getI (originalPuzzle s1) 0 2 = Inr Null"
    by (simp add: s1_def threeMoves_def getI_def examplePuzzle_def cellAt_def)
  have wr: "put (puzzle s1) (nat 0) (nat 2) (Num 4) = Inr S3"
    by (simp add: s1_def threeMoves_def put_def rowPut_def examplePuzzle_def S3_def)
  have cur: "historyIndex s1 < length (history s1)"
    by (simp add: s1_def threeMoves_def)
  have ne: "S3 \<noteq> history threeMoves ! 2"
    by (simp add: S3_def threeMoves_def examplePuzzle_def)
  from enterValue_truncates_history [OF sel ed wr cur] u sel ed wr ne show ?thesis
    by (simp add: s1_def threeMoves_def)
qed

section \<open>Selecting a cell\<close>

lemma gridShape_row: "gridShape g \<Longrightarrow> r < 9 \<Longrightarrow> length (g ! r) = 9"
  by (simp add: gridShape_def list_all_length)

lemma gridShape_get: "gridShape g \<Longrightarrow> r < 9 \<Longrightarrow> c < 9 \<Longrightarrow> get g r c = Inr (g ! r ! c)"
  by (simp add: get_def cellAt_def gridShape_row) (simp add: gridShape_def)

lemma gridShape_getI:
  assumes "gridShape g" "0 \<le> r" "r < 9" "0 \<le> c" "c < 9"
  shows "getI g r c = Inr (g ! nat r ! nat c)"
proof -
  from assms have "nat r < 9" "nat c < 9" by simp_all
  with assms show ?thesis
    using gridShape_row [of g "nat r"] by (simp add: getI_def cellAt_def gridShape_def)
qed

lemma gridShape_getI_col:
  assumes "gridShape g" "0 \<le> r" "r < 9" "c < 0 \<or> 9 \<le> c"
  shows "getI g r c = Inr Undefined"
proof -
  from assms have "nat r < 9" by simp
  with assms show ?thesis
    using gridShape_row [of g "nat r"] by (auto simp: getI_def cellAt_def gridShape_def)
qed

lemma gridShape_getI_row:
  "gridShape g \<Longrightarrow> r < 0 \<or> 9 \<le> r \<Longrightarrow> getI g r c = Inl TypeError"
  by (auto simp: getI_def gridShape_def)

lemma exampleSession_shape: "gridShape (originalPuzzle exampleSession)"
  by (simp add: exampleSession_def initSession_def examplePuzzle_def gridShape_def)

text \<open>
  C9, as the claim states it, fails: a row index outside 0..8 makes \<^verbatim>\<open>handleCellClick\<close>
  throw, since \<^verbatim>\<open>originalPuzzle[9]\<close> is \<^verbatim>\<open>undefined\<close> and line 77 reads its property.
\<close>

theorem selectCell_row_out_of_range_throws:
  "handleCellClick 9 0 exampleSession = Inl TypeError"
  by (simp add: handleCellClick_def getI_def exampleSession_def initSession_def
      examplePuzzle_def)

text \<open>
  C9, amended.  On a session whose original puzzle is a 9 by 9 board,
  \<^verbatim>\<open>handleCellClick\<close> returns the session unchanged when the target is a given cell
  and when the row is within 0..8 and the column is outside 0..8 (the cell reads
  \<^verbatim>\<open>undefined\<close>, which is not \<^verbatim>\<open>null\<close>); when the row is outside 0..8 it throws a
  \<^verbatim>\<open>TypeError\<close>, before any state is written.
\<close>

theorem selectCell_invalid_target:
  assumes "gridShape (originalPuzzle s)"
  shows "(0 \<le> row \<and> row < 9 \<and> 0 \<le> col \<and> col < 9
            \<and> originalPuzzle s ! nat row ! nat col \<noteq> Null
          \<longrightarrow> handleCellClick row col s = Inr s)
       \<and> (0 \<le> row \<and> row < 9 \<and> (col < 0 \<or> 9 \<le> col)
          \<longrightarrow> handleCellClick row col s = Inr s)
       \<and> (row < 0 \<or> 9 \<le> row \<longrightarrow> handleCellClick row col s = Inl TypeError)"
proof (intro conjI impI)
  assume "0 \<le> row \<and> row < 9 \<and> 0 \<le> col \<and> col < 9
            \<and> originalPuzzle s ! nat row ! nat col \<noteq> Null"
  with assms show "handleCellClick row col s = Inr s"
    by (simp add: handleCellClick_def gridShape_getI)
next
  assume "0 \<le> row \<and> row < 9 \<and> (col < 0 \<or> 9 \<le> col)"
  with assms show "handleCellClick row col s = Inr s"
    by (simp add: handleCellClick_def gridShape_getI_col)
next
  assume "row < 0 \<or> 9 \<le> row"
  with assms show "handleCellClick row col s = Inl TypeError"
    by (simp add: handleCellClick_def gridShape_getI_row)
qed

theorem selectCell_invalid_target_witness:
  "gridShape (originalPuzzle exampleSession)
   \<and> originalPuzzle exampleSession ! 4 ! 4 = Num 9
   \<and> handleCellClick 4 4 exampleSession = Inr exampleSession
   \<and> handleCellClick 0 9 exampleSession = Inr exampleSession
   \<and> handleCellClick 0 (- 1) exampleSession = Inr exampleSession
   \<and> handleCellClick (- 1) 0 exampleSession = Inl TypeError
   \<and> handleCellClick 12 3 exampleSession = Inl TypeError"
proof -
  have given: "originalPuzzle exampleSession ! 4 ! 4 = Num 9"
    by (simp add: exampleSession_def initSession_def examplePuzzle_def)
  from selectCell_invalid_target [OF exampleSession_shape, of 4 4]
    selectCell_invalid_target [OF exampleSession_shape, of 0 9]
    selectCell_invalid_target [OF exampleSession_shape, of 0 "- 1"]
    selectCell_invalid_target [OF exampleSession_shape, of "- 1" 0]
    selectCell_invalid_target [OF exampleSession_shape, of 12 3]
    given exampleSession_shape
  show ?thesis by simp
qed

section \<open>Reset\<close>

text \<open>The example puzzle is what \<^verbatim>\<open>createPuzzle\<close> derives from the example solution with
  40 removals and the example draws, so the example session is one that lines 69-74
  can build.\<close>

lemma examplePuzzle_derived:
  "createPuzzle exampleDraws exampleSolution 40 = Some (Inr examplePuzzle)"
  by code_simp

text \<open>
  C6.  \<^verbatim>\<open>reset\<close> calls \<^verbatim>\<open>createPuzzle\<close> once for the puzzle (line 116) and once more
  for the history (line 117).  On the example session, with the first call drawing
  the cells from the top and the second from the bottom, the log holds one snapshot
  and the cursor is 0, but the snapshot is not the current puzzle.
\<close>

theorem reset_snapshot_differs:
  "(case reset exampleDraws otherDraws exampleSession of
      Some (Inr s) \<Rightarrow>
        length (history s) = 1 \<and> historyIndex s = 0 \<and> history s ! 0 \<noteq> puzzle s
        \<and> puzzle s ! 0 ! 0 = Null \<and> history s ! 0 ! 0 ! 0 = Num 1
    | _ \<Rightarrow> False)"
  by code_simp

text \<open>
  C5.  \<^verbatim>\<open>reset\<close> installs a puzzle with a new removal pattern and keeps the old
  \<^verbatim>\<open>originalPuzzle\<close>.  On the example session, after a reset whose first call draws
  the cells from the bottom, the cell in row 8, column 8 is given in the original
  puzzle (2, the solution's value) and empty in the current puzzle.
\<close>

theorem reset_blanks_given_cell:
  "(case reset otherDraws exampleDraws exampleSession of
      Some (Inr s) \<Rightarrow>
        originalPuzzle s ! 8 ! 8 = Num 2 \<and> solution s ! 8 ! 8 = Num 2
        \<and> puzzle s ! 8 ! 8 = Null
    | _ \<Rightarrow> False)"
  by code_simp

text \<open>
  C7.  After the same reset, \<^verbatim>\<open>clearUserInputs\<close> keeps the current puzzle's cell
  wherever the original puzzle has a given cell, so the cleared grid is empty in
  row 8, column 8, where the original puzzle holds 2: it is not the original puzzle.
\<close>

theorem clear_after_reset_differs:
  "(case run [Reset otherDraws exampleDraws, ClearUserInputs] exampleSession of
      Some (Inr s) \<Rightarrow>
        puzzle s \<noteq> originalPuzzle s
        \<and> originalPuzzle s ! 8 ! 8 = Num 2 \<and> puzzle s ! 8 ! 8 = Null
    | _ \<Rightarrow> False)"
  by code_simp

section \<open>Deriving a puzzle\<close>

text \<open>
  On a 9 by 9 board with draws in 0..8, every read and write of \<^verbatim>\<open>createPuzzle\<close> is in
  range: \<open>put\<close> is the update of one cell.
\<close>

lemma gridShape_put:
  "gridShape g \<Longrightarrow> r < 9 \<Longrightarrow> c < 9 \<Longrightarrow> put g r c v = Inr (setCell g r c v)"
  using gridShape_row [of g r] by (simp add: put_def rowPut_def setCell_def gridShape_def)

lemma gridShape_setCell: "gridShape g \<Longrightarrow> gridShape (setCell g r c v)"
  by (cases "r < length g") (auto simp: gridShape_def setCell_def list_all_length nth_list_update)

lemma setCell_nth:
  "gridShape g \<Longrightarrow> r < 9 \<Longrightarrow> c < 9 \<Longrightarrow> r' < 9 \<Longrightarrow> c' < 9 \<Longrightarrow>
   setCell g r c v ! r' ! c' = (if r' = r \<and> c' = c then v else g ! r' ! c')"
  using gridShape_row [of g r]
  by (auto simp: setCell_def nth_list_update gridShape_def)

lemma count_list_update_add:
  "c < length xs \<Longrightarrow> xs ! c \<noteq> v \<Longrightarrow> count_list (xs[c := v]) v = count_list xs v + 1"
proof (induction xs arbitrary: c)
  case Nil
  then show ?case by simp
next
  case (Cons x xs)
  then show ?case by (cases c) auto
qed

lemma count_list_update_del:
  "c < length xs \<Longrightarrow> xs ! c = v \<Longrightarrow> w \<noteq> v \<Longrightarrow> count_list (xs[c := w]) v + 1 = count_list xs v"
proof (induction xs arbitrary: c)
  case Nil
  then show ?case by simp
next
  case (Cons x xs)
  then show ?case by (cases c) auto
qed

lemma sum_list_map_update:
  fixes f :: "'a \<Rightarrow> nat"
  shows "r < length g \<Longrightarrow> sum_list (map f (g[r := x])) + f (g ! r) = sum_list (map f g) + f x"
proof (induction g arbitrary: r)
  case Nil
  then show ?case by simp
next
  case (Cons y ys)
  then show ?case by (cases r) (auto simp: add.assoc add.left_commute)
qed

lemma holes_blank:
  assumes "gridShape g" "r < 9" "c < 9" "g ! r ! c \<noteq> Null"
  shows "holes (setCell g r c Null) = holes g + 1"
proof -
  from assms have len: "r < length g" "c < length (g ! r)"
    using gridShape_row [of g r] by (simp_all add: gridShape_def)
  have "count_list ((g ! r)[c := Null]) Null = count_list (g ! r) Null + 1"
    using len assms(4) by (simp add: count_list_update_add)
  with sum_list_map_update [OF len(1), of "\<lambda>r. count_list r Null" "(g ! r)[c := Null]"]
  show ?thesis by (simp add: holes_def setCell_def)
qed

lemma holes_fill:
  assumes "gridShape g" "r < 9" "c < 9" "g ! r ! c = Null" "v \<noteq> Null"
  shows "holes (setCell g r c v) + 1 = holes g"
proof -
  from assms have len: "r < length g" "c < length (g ! r)"
    using gridShape_row [of g r] by (simp_all add: gridShape_def)
  have "count_list ((g ! r)[c := v]) Null + 1 = count_list (g ! r) Null"
    using len assms(4,5) by (rule_tac count_list_update_del) simp_all
  with sum_list_map_update [OF len(1), of "\<lambda>r. count_list r Null" "(g ! r)[c := v]"]
  show ?thesis by (simp add: holes_def setCell_def)
qed

lemma removeCells_result:
  assumes ret: "removeCells rnd i p a = Some res"
  shows "removeCellsPost rnd p a res"
proof (rule removeCells.raw_induct [where P = "\<lambda>rnd i p a res. removeCellsPost rnd p a res", OF _ ret])
  fix self :: "(nat \<Rightarrow> nat) \<Rightarrow> nat \<Rightarrow> grid \<Rightarrow> nat \<Rightarrow> (error + grid) option"
  fix rnd i p a res
  assume IH: "\<And>rnd i p a res. self rnd i p a = Some res \<Longrightarrow> removeCellsPost rnd p a res"
  assume body: "(if 0 < a
      then case get p (rnd i) (rnd (i + 1)) of Inl e \<Rightarrow> Some (Inl e)
           | Inr v \<Rightarrow>
               if v \<noteq> Null
               then case put p (rnd i) (rnd (i + 1)) Null of
                    Inl e \<Rightarrow> Some (Inl e)
                    | Inr puzzle' \<Rightarrow> self rnd (i + 2) puzzle' (a - 1)
               else self rnd (i + 2) p a
      else Some (Inr p)) = Some res"
  show "removeCellsPost rnd p a res"
    unfolding removeCellsPost_def
  proof (intro impI)
    assume shape: "gridShape p" and range: "\<forall>j. rnd j < 9"
    let ?r = "rnd i" and ?c = "rnd (i + 1)"
    from range have rc: "?r < 9" "?c < 9" by simp_all
    show "\<exists>q. res = Inr q \<and> gridShape q \<and> holes q = holes p + a \<and> derivedFrom p q"
    proof (cases "0 < a")
      case False
      with body shape show ?thesis by (auto simp: derivedFrom_def)
    next
      case True
      show ?thesis
      proof (cases "p ! ?r ! ?c = Null")
        case True
        with \<open>0 < a\<close> body shape rc have "self rnd (i + 2) p a = Some res"
          by (simp add: gridShape_get)
        from IH [OF this] shape range show ?thesis by (simp add: removeCellsPost_def)
      next
        case False
        let ?p' = "setCell p ?r ?c Null"
        from False \<open>0 < a\<close> body shape rc have "self rnd (i + 2) ?p' (a - 1) = Some res"
          by (simp add: gridShape_get gridShape_put)
        from IH [OF this] range shape obtain q where q: "res = Inr q" "gridShape q"
          "holes q = holes ?p' + (a - 1)" "derivedFrom ?p' q"
          by (auto simp: gridShape_setCell removeCellsPost_def)
        have "holes q = holes p + a"
          using q(3) holes_blank [OF shape rc False] \<open>0 < a\<close> by simp
        moreover have "derivedFrom p q"
          unfolding derivedFrom_def
        proof (intro allI impI)
          fix r c assume b: "r < 9" "c < 9" and nn: "q ! r ! c \<noteq> Null"
          with q(4) have "q ! r ! c = ?p' ! r ! c" by (simp add: derivedFrom_def)
          with nn show "q ! r ! c = p ! r ! c"
            using setCell_nth [OF shape rc b, of Null] by (auto split: if_splits)
        qed
        ultimately show ?thesis using q by simp
      qed
    qed
  qed
qed

lemma row_holes_nonEmpty:
  "count_list r Null + length (filter (\<lambda>v. v \<noteq> Null) r) = length r"
  by (induction r) auto

lemma holes_nonEmpty_rows:
  "holes g + nonEmpty g = sum_list (map length g)"
proof (induction g)
  case Nil
  then show ?case by (simp add: holes_def nonEmpty_def)
next
  case (Cons r g)
  then show ?case
    using row_holes_nonEmpty [of r] by (simp add: holes_def nonEmpty_def)
qed

lemma sum_list_const9: "list_all (\<lambda>r. length r = 9) g \<Longrightarrow> sum_list (map length g) = 9 * length g"
  by (induction g) auto

lemma holes_nonEmpty: "gridShape g \<Longrightarrow> holes g + nonEmpty g = 81"
  by (simp add: holes_nonEmpty_rows gridShape_def sum_list_const9)

lemma drawn_Suc: "drawn rnd i (Suc k) = (rnd i, rnd (i + 1)) # drawn rnd (i + 2) k"
proof -
  have "[0..<Suc k] = 0 # [Suc 0..<Suc k]"
    by (rule upt_conv_Cons) simp
  also have "[Suc 0..<Suc k] = map Suc [0..<k]"
    by (simp only: map_Suc_upt)
  finally have e: "[0..<Suc k] = 0 # map Suc [0..<k]" .
  show ?thesis
    unfolding drawn_def e by (simp add: comp_def)
qed

lemma drawn_range: "\<forall>j. rnd j < 9 \<Longrightarrow> rc \<in> set (drawn rnd i k) \<Longrightarrow> fst rc < 9 \<and> snd rc < 9"
  by (auto simp: drawn_def)

lemma card_insert_le_Diff: "finite A \<Longrightarrow> card (insert x A) \<le> card (A - {x}) + 1"
proof -
  assume "finite A"
  then have "card (insert x (A - {x})) = Suc (card (A - {x}))"
    by (intro card_insert_disjoint) auto
  moreover have "insert x (A - {x}) = insert x A" by auto
  ultimately show ?thesis by simp
qed

lemma removeCells_returns:
  "gridShape p \<Longrightarrow> \<forall>j. rnd j < 9 \<Longrightarrow> a \<le> visited rnd i k p
   \<Longrightarrow> \<exists>q. removeCells rnd i p a = Some (Inr q)"
proof (induction k arbitrary: i p a)
  case 0
  then have "a = 0" by (simp add: visited_def drawn_def)
  then show ?case by (subst removeCells.simps) simp
next
  case (Suc k)
  let ?r = "rnd i" and ?c = "rnd (i + 1)"
  from Suc.prems(2) have rc: "?r < 9" "?c < 9" by simp_all
  show ?case
  proof (cases "0 < a")
    case False
    then show ?thesis by (subst removeCells.simps) simp
  next
    case True
    show ?thesis
    proof (cases "p ! ?r ! ?c = Null")
      case True
      with Suc.prems(3) have "a \<le> visited rnd (i + 2) k p"
        by (simp add: visited_def drawn_Suc)
      moreover have "removeCells rnd i p a = removeCells rnd (i + 2) p a"
        using True \<open>0 < a\<close> gridShape_get [OF Suc.prems(1) rc]
        by (subst removeCells.simps) simp
      ultimately show ?thesis
        using Suc.IH [OF Suc.prems(1,2)] by simp
    next
      case False
      let ?p' = "setCell p ?r ?c Null"
      let ?A = "set (filter (\<lambda>rc. p ! fst rc ! snd rc \<noteq> Null) (drawn rnd (i + 2) k))"
      let ?B = "set (filter (\<lambda>rc. ?p' ! fst rc ! snd rc \<noteq> Null) (drawn rnd (i + 2) k))"
      have sub: "?A - {(?r, ?c)} \<subseteq> ?B"
      proof
        fix x assume x: "x \<in> ?A - {(?r, ?c)}"
        then have "x \<in> set (drawn rnd (i + 2) k)" by simp
        from drawn_range [OF Suc.prems(2) this] have b: "fst x < 9" "snd x < 9" by simp_all
        from x have "x \<noteq> (?r, ?c)" by simp
        then have "\<not> (fst x = ?r \<and> snd x = ?c)" by (cases x) auto
        with setCell_nth [OF Suc.prems(1) rc b, of Null] x show "x \<in> ?B" by auto
      qed
      have "filter (\<lambda>rc. p ! fst rc ! snd rc \<noteq> Null) (drawn rnd i (Suc k))
              = (?r, ?c) # filter (\<lambda>rc. p ! fst rc ! snd rc \<noteq> Null) (drawn rnd (i + 2) k)"
        using False by (simp add: drawn_Suc)
      then have "visited rnd i (Suc k) p = card (insert (?r, ?c) ?A)"
        by (simp only: visited_def length_remdups_card_conv list.set)
      also have "\<dots> \<le> card (?A - {(?r, ?c)}) + 1"
        by (rule card_insert_le_Diff) simp
      also have "\<dots> \<le> card ?B + 1"
        using sub by (simp add: card_mono)
      finally have "a - 1 \<le> visited rnd (i + 2) k ?p'"
        using Suc.prems(3) by (simp add: visited_def length_remdups_card_conv)
      moreover have "removeCells rnd i p a = removeCells rnd (i + 2) ?p' (a - 1)"
        using False \<open>0 < a\<close> gridShape_get [OF Suc.prems(1) rc]
          gridShape_put [OF Suc.prems(1) rc, of Null]
        by (subst removeCells.simps) simp
      ultimately show ?thesis
        using Suc.IH [OF gridShape_setCell [OF Suc.prems(1)] Suc.prems(2)] by simp
    qed
  qed
qed

lemma removeCells_diverges:
  assumes "gridShape p" "\<forall>j. rnd j < 9" "nonEmpty p < a"
  shows "removeCells rnd i p a = None"
proof (rule ccontr)
  assume "removeCells rnd i p a \<noteq> None"
  then obtain res where "removeCells rnd i p a = Some res" by auto
  from removeCells_result [OF this] assms(1,2) obtain q
    where q: "gridShape q" "holes q = holes p + a"
    by (auto simp: removeCellsPost_def)
  from holes_nonEmpty [OF q(1)] holes_nonEmpty [OF assms(1)] q(2) assms(3)
  show False by simp
qed

lemma fullGrid_cell: "fullGrid g \<Longrightarrow> r < 9 \<Longrightarrow> c < 9 \<Longrightarrow> g ! r ! c \<noteq> Null"
proof -
  assume a: "fullGrid g" "r < 9" "c < 9"
  then have "isNum (g ! r ! c)"
    by (simp add: fullGrid_def gridShape_def list_all_length)
  then show ?thesis by auto
qed

lemma row_full: "list_all isNum r \<Longrightarrow> count_list r Null = 0"
  by (induction r) auto

lemma fullGrid_holes: "fullGrid g \<Longrightarrow> holes g = 0"
proof -
  have "list_all (list_all isNum) g \<Longrightarrow> sum_list (map (\<lambda>r. count_list r Null) g) = 0"
    by (induction g) (auto simp: row_full)
  then show "fullGrid g \<Longrightarrow> holes g = 0"
    by (simp add: fullGrid_def holes_def)
qed

lemma fullGrid_visited:
  assumes "fullGrid g" "\<forall>j. rnd j < 9"
  shows "visited rnd i k g = length (remdups (drawn rnd i k))"
proof -
  have "filter (\<lambda>rc. g ! fst rc ! snd rc \<noteq> Null) (drawn rnd i k) = drawn rnd i k"
    using drawn_range [OF assms(2)] fullGrid_cell [OF assms(1)]
    by (intro filter_True) blast
  then show ?thesis by (simp add: visited_def)
qed

lemma exampleDraws_range: "\<forall>i. exampleDraws i < 9"
  by (simp add: exampleDraws_def)

lemma exampleSolution_full: "fullGrid exampleSolution"
  by code_simp

text \<open>
  C2.  For a fully filled 9 by 9 grid \<open>sol\<close>, any \<open>n\<close> and any draws in 0..8:
  \<^verbatim>\<open>createPuzzle\<close> never throws; whenever it returns, the result is a 9 by 9 grid with
  exactly \<open>n\<close> empty cells whose non-empty cells are those of \<open>sol\<close>; and it does
  return as soon as the draws visit \<open>n\<close> distinct cells (some first \<open>k\<close> picks hold \<open>n\<close>
  distinct cells, which needs \<open>n \<le> 81\<close>).  The retry loop ends only by such draws:
  that a random source makes them is outside this model.
\<close>

theorem createPuzzle_blanks_removalCount:
  assumes full: "fullGrid sol" and range: "\<forall>i. rnd i < 9"
  shows "(\<forall>e. createPuzzle rnd sol n \<noteq> Some (Inl e))
       \<and> (\<forall>p. createPuzzle rnd sol n = Some (Inr p)
              \<longrightarrow> gridShape p \<and> holes p = n \<and> derivedFrom sol p)
       \<and> (n \<le> length (remdups (drawn rnd 0 k))
              \<longrightarrow> (\<exists>p. createPuzzle rnd sol n = Some (Inr p)))"
proof -
  from full have shape: "gridShape sol" by (simp add: fullGrid_def)
  have post: "removeCellsPost rnd sol n res" if "createPuzzle rnd sol n = Some res" for res
    using that removeCells_result [of rnd 0 sol n res] by (simp add: createPuzzle_def copyGrid_id)
  have a: "\<forall>e. createPuzzle rnd sol n \<noteq> Some (Inl e)"
    using post shape range by (auto simp: removeCellsPost_def)
  have b: "\<forall>p. createPuzzle rnd sol n = Some (Inr p)
              \<longrightarrow> gridShape p \<and> holes p = n \<and> derivedFrom sol p"
    using post shape range fullGrid_holes [OF full] by (auto simp: removeCellsPost_def)
  have c: "n \<le> length (remdups (drawn rnd 0 k))
              \<longrightarrow> (\<exists>p. createPuzzle rnd sol n = Some (Inr p))"
    using removeCells_returns [OF shape range, of n 0 k] fullGrid_visited [OF full range, of 0 k]
    by (simp add: createPuzzle_def copyGrid_id)
  from a b c show ?thesis by blast
qed

theorem createPuzzle_blanks_removalCount_witness:
  "fullGrid exampleSolution \<and> (\<forall>i. exampleDraws i < 9)
   \<and> 40 \<le> length (remdups (drawn exampleDraws 0 40))
   \<and> (\<exists>p. createPuzzle exampleDraws exampleSolution 40 = Some (Inr p)
          \<and> gridShape p \<and> holes p = 40 \<and> derivedFrom exampleSolution p)"
proof -
  have v: "40 \<le> length (remdups (drawn exampleDraws 0 40))" by code_simp
  from createPuzzle_blanks_removalCount [OF exampleSolution_full exampleDraws_range, of 40 40]
    v exampleSolution_full exampleDraws_range
  show ?thesis by blast
qed

text \<open>
  C8, as the claim states it, fails: the source has no clamp and no rejection.  With
  82 removals asked of a full board the loop never ends, whatever the draws.
\<close>

theorem createPuzzle_82_never_returns:
  "createPuzzle exampleDraws exampleSolution 82 = None"
proof -
  have "gridShape exampleSolution" by code_simp
  moreover have "nonEmpty exampleSolution < 82" by code_simp
  ultimately show ?thesis
    using removeCells_diverges [OF _ exampleDraws_range, of exampleSolution 82 0]
    by (simp add: createPuzzle_def copyGrid_id)
qed

text \<open>
  C8, amended.  On every 9 by 9 grid with draws in 0..8, a removal count above the
  number of non-empty cells makes \<^verbatim>\<open>createPuzzle\<close> loop for ever (it is neither clamped
  nor rejected), and a removal count that the draws cover (\<open>n\<close> distinct non-empty
  cells among some first \<open>k\<close> picks) makes it return a grid.
\<close>

theorem createPuzzle_no_clamp:
  assumes shape: "gridShape g" and range: "\<forall>i. rnd i < 9"
  shows "(nonEmpty g < n \<longrightarrow> createPuzzle rnd g n = None)
       \<and> (n \<le> visited rnd 0 k g \<longrightarrow> (\<exists>q. createPuzzle rnd g n = Some (Inr q)))"
  using removeCells_diverges [OF shape range, of n 0] removeCells_returns [OF shape range, of n 0 k]
  by (simp add: createPuzzle_def copyGrid_id)

theorem createPuzzle_no_clamp_witness:
  "gridShape examplePuzzle \<and> (\<forall>i. exampleDraws i < 9)
   \<and> nonEmpty examplePuzzle = 41 \<and> createPuzzle exampleDraws examplePuzzle 42 = None
   \<and> 41 \<le> visited exampleDraws 0 81 examplePuzzle
   \<and> (\<exists>q. createPuzzle exampleDraws examplePuzzle 41 = Some (Inr q))"
proof -
  have s: "gridShape examplePuzzle" by code_simp
  have n: "nonEmpty examplePuzzle = 41" by code_simp
  have v: "41 \<le> visited exampleDraws 0 81 examplePuzzle" by code_simp
  from createPuzzle_no_clamp [OF s exampleDraws_range, of 42 81]
    createPuzzle_no_clamp [OF s exampleDraws_range, of 41 81] s n v exampleDraws_range
  show ?thesis by simp
qed

section \<open>The argument of the puzzle deriver\<close>

lemma copyRows_frame:
  "copyRows h as = (res, h') \<Longrightarrow> length h \<le> length h' \<and> take (length h) h' = h \<and> freshRows (length h) res"
proof (induction as arbitrary: h res h')
  case Nil
  then show ?case by (auto simp: freshRows_def)
next
  case (Cons a as)
  show ?case
  proof (cases "a < length h")
    case False
    with Cons.prems show ?thesis by (auto simp: freshRows_def)
  next
    case True
    obtain r1 h1 where c: "copyRows (h @ [h ! a]) as = (r1, h1)" by (cases "copyRows (h @ [h ! a]) as")
    from Cons.IH [OF c] have l: "Suc (length h) \<le> length h1"
      and t: "take (Suc (length h)) h1 = h @ [h ! a]" and f: "freshRows (Suc (length h)) r1"
      by simp_all
    from t have "take (length h) (take (Suc (length h)) h1) = take (length h) (h @ [h ! a])" by simp
    then have t': "take (length h) h1 = h" by (simp add: min_def)
    from Cons.prems True c have h': "h' = h1" by (auto split: sum.splits)
    have "freshRows (length h) res"
      using Cons.prems True c f
      by (fastforce simp: freshRows_def list_all_iff split: sum.splits dest: Suc_leD)
    with l t' h' show ?thesis by simp
  qed
qed

lemma removeCellsIn_frame:
  assumes ret: "removeCellsIn rnd i ps h a = Some out"
  shows "framePost n ps h out"
proof (rule removeCellsIn.raw_induct [where P = "\<lambda>rnd i ps h a out. framePost n ps h out", OF _ ret])
  fix self :: "(nat \<Rightarrow> nat) \<Rightarrow> nat \<Rightarrow> addr list \<Rightarrow> store \<Rightarrow> nat \<Rightarrow> ((error + addr list) \<times> store) option"
  fix rnd i ps h a out
  assume IH: "\<And>rnd i ps h a out. self rnd i ps h a = Some out \<Longrightarrow> framePost n ps h out"
  assume body: "(if 0 < a
      then if rnd i < length ps \<and> ps ! rnd i < length h
           then if cellAt (h ! (ps ! rnd i)) (rnd (i + 1)) \<noteq> Null
                then self rnd (i + 2) ps
                      (h[ps ! rnd i := rowPut (h ! (ps ! rnd i)) (rnd (i + 1)) Null])
                      (a - 1)
                else self rnd (i + 2) ps h a
           else Some (Inl TypeError, h)
      else Some (Inr ps, h)) = Some out"
  show "framePost n ps h out"
    unfolding framePost_def
  proof
    assume fresh: "list_all (\<lambda>p. n \<le> p) ps"
    consider (stop) "out = (Inr ps, h) \<or> out = (Inl TypeError, h)"
      | (same) "self rnd (i + 2) ps h a = Some out"
      | (blank) "rnd i < length ps" "self rnd (i + 2) ps
                      (h[ps ! rnd i := rowPut (h ! (ps ! rnd i)) (rnd (i + 1)) Null])
                      (a - 1) = Some out"
      using body by (auto split: if_splits)
    then show "length (snd out) = length h \<and> take n (snd out) = take n h"
    proof cases
      case stop
      then show ?thesis by auto
    next
      case same
      from IH [OF this] fresh show ?thesis by (simp add: framePost_def)
    next
      case blank
      from blank(1) fresh have "n \<le> ps ! rnd i" by (simp add: list_all_length)
      with IH [OF blank(2)] fresh show ?thesis by (simp add: framePost_def)
    qed
  qed
qed

text \<open>
  C10.  Whenever \<^verbatim>\<open>createPuzzle\<close> returns or throws, on any store, any grid argument,
  any removal count and any draws, every array that existed before the call holds
  after it what it held before: the old store is a prefix of the new one.  So the
  rows of the argument read cell for cell as before; the cells blanked are those of
  rows allocated by the copy.
\<close>

theorem createPuzzle_keeps_argument:
  assumes "createPuzzleIn rnd h grid n = Some (res, h')"
  shows "length h \<le> length h' \<and> take (length h) h' = h
         \<and> gridOf h' (filter (\<lambda>a. a < length h) grid)
             = gridOf h (filter (\<lambda>a. a < length h) grid)"
proof -
  obtain r1 h1 where c: "copyRows h grid = (r1, h1)" by (cases "copyRows h grid")
  from copyRows_frame [OF c] have l: "length h \<le> length h1" and t: "take (length h) h1 = h"
    and f: "freshRows (length h) r1" by simp_all
  have "length h1 \<le> length h' \<and> take (length h) h' = take (length h) h1"
  proof (cases r1)
    case (Inl e)
    with assms c show ?thesis by (simp add: createPuzzleIn_def)
  next
    case (Inr ps)
    with assms c have "removeCellsIn rnd 0 ps h1 n = Some (res, h')"
      by (simp add: createPuzzleIn_def)
    from removeCellsIn_frame [OF this, of "length h"] f Inr show ?thesis
      by (simp add: framePost_def freshRows_def)
  qed
  with l t have a: "length h \<le> length h'" and b: "take (length h) h' = h" by simp_all
  have "h' ! a = h ! a" if "a < length h" for a
    using that b by (metis nth_take)
  then have "gridOf h' (filter (\<lambda>a. a < length h) grid)
             = gridOf h (filter (\<lambda>a. a < length h) grid)"
    unfolding gridOf_def by (intro map_cong) auto
  with a b show ?thesis by simp
qed

theorem createPuzzle_keeps_argument_witness:
  "createPuzzleIn exampleDraws exampleSolution [0, 1, 2, 3, 4, 5, 6, 7, 8] 40
     = Some (Inr [9, 10, 11, 12, 13, 14, 15, 16, 17], exampleSolution @ examplePuzzle)
   \<and> take (length exampleSolution) (exampleSolution @ examplePuzzle) = exampleSolution
   \<and> gridOf (exampleSolution @ examplePuzzle) [0, 1, 2, 3, 4, 5, 6, 7, 8]
       = gridOf exampleSolution [0, 1, 2, 3, 4, 5, 6, 7, 8]"
proof -
  have r: "createPuzzleIn exampleDraws exampleSolution [0, 1, 2, 3, 4, 5, 6, 7, 8] 40
     = Some (Inr [9, 10, 11, 12, 13, 14, 15, 16, 17], exampleSolution @ examplePuzzle)"
    by code_simp
  have "length exampleSolution = 9" by (simp add: exampleSolution_def)
  with createPuzzle_keeps_argument [OF r] r show ?thesis by simp
qed

subsection \<open>The store model and the value model agree\<close>

text \<open>
  For an argument whose rows are arrays of the store, \<^verbatim>\<open>createPuzzle\<close> on the store
  returns, throws or loops exactly when the model on grid values does, and the grid
  it returns reads as the value model's result.  So the claims proved on grid values
  are claims about the same function.
\<close>

lemma gridOf_update:
  assumes "validRows h ps" "r < length ps"
  shows "gridOf (h[ps ! r := x]) ps = (gridOf h ps)[r := x]"
proof (rule nth_equalityI)
  show "length (gridOf (h[ps ! r := x]) ps) = length ((gridOf h ps)[r := x])"
    by (simp add: gridOf_def)
  fix j assume "j < length (gridOf (h[ps ! r := x]) ps)"
  then have j: "j < length ps" by (simp add: gridOf_def)
  from assms j have "ps ! r < length h" "ps ! j < length h" "ps ! r = ps ! j \<longleftrightarrow> r = j"
    by (simp_all add: validRows_def list_all_length nth_eq_iff_index_eq)
  with j assms(2) show "gridOf (h[ps ! r := x]) ps ! j = (gridOf h ps)[r := x] ! j"
    by (auto simp: gridOf_def nth_list_update)
qed

lemma validRows_update: "validRows h ps \<Longrightarrow> validRows (h[a := x]) ps"
  by (simp add: validRows_def)

lemma removeCellsIn_refines:
  assumes ret: "removeCellsIn rnd i ps h a = Some out"
  shows "refinesPost rnd i ps h a out"
proof (rule removeCellsIn.raw_induct [where P = refinesPost, OF _ ret])
  fix self :: "(nat \<Rightarrow> nat) \<Rightarrow> nat \<Rightarrow> addr list \<Rightarrow> store \<Rightarrow> nat \<Rightarrow> ((error + addr list) \<times> store) option"
  fix rnd i ps h a out
  assume IH: "\<And>rnd i ps h a out. self rnd i ps h a = Some out \<Longrightarrow> refinesPost rnd i ps h a out"
  assume body: "(if 0 < a
      then if rnd i < length ps \<and> ps ! rnd i < length h
           then if cellAt (h ! (ps ! rnd i)) (rnd (i + 1)) \<noteq> Null
                then self rnd (i + 2) ps
                      (h[ps ! rnd i := rowPut (h ! (ps ! rnd i)) (rnd (i + 1)) Null])
                      (a - 1)
                else self rnd (i + 2) ps h a
           else Some (Inl TypeError, h)
      else Some (Inr ps, h)) = Some out"
  show "refinesPost rnd i ps h a out"
    unfolding refinesPost_def
  proof
    assume valid: "validRows h ps"
    let ?p = "gridOf h ps"
    show "removeCells rnd i ?p a = Some (abstractOut out)"
    proof (cases "0 < a")
      case False
      with body have "out = (Inr ps, h)" by simp
      with False show ?thesis
        by (subst removeCells.simps) (simp add: abstractOut_def)
    next
      case pos: True
      show ?thesis
      proof (cases "rnd i < length ps")
        case False
        with pos body have "out = (Inl TypeError, h)" by simp
        with pos False show ?thesis
          by (subst removeCells.simps) (simp add: abstractOut_def get_def gridOf_def)
      next
        case inRange: True
        with valid have here: "ps ! rnd i < length h"
          by (simp add: validRows_def list_all_length)
        have row: "?p ! rnd i = h ! (ps ! rnd i)"
          using inRange by (simp add: gridOf_def)
        have rd: "get ?p (rnd i) (rnd (i + 1)) = Inr (cellAt (h ! (ps ! rnd i)) (rnd (i + 1)))"
          using inRange row by (simp add: get_def gridOf_def)
        show ?thesis
        proof (cases "cellAt (h ! (ps ! rnd i)) (rnd (i + 1)) = Null")
          case True
          with pos inRange here body have "self rnd (i + 2) ps h a = Some out" by simp
          from IH [OF this] valid
          have "removeCells rnd (i + 2) ?p a = Some (abstractOut out)"
            by (simp add: refinesPost_def)
          with pos True rd show ?thesis
            by (subst removeCells.simps) simp
        next
          case False
          let ?h' = "h[ps ! rnd i := rowPut (h ! (ps ! rnd i)) (rnd (i + 1)) Null]"
          from False pos inRange here body have "self rnd (i + 2) ps ?h' (a - 1) = Some out"
            by simp
          from IH [OF this] validRows_update [OF valid]
          have "removeCells rnd (i + 2) (gridOf ?h' ps) (a - 1) = Some (abstractOut out)"
            by (simp add: refinesPost_def)
          moreover have "put ?p (rnd i) (rnd (i + 1)) Null = Inr (gridOf ?h' ps)"
            using inRange row gridOf_update [OF valid inRange]
            by (simp add: put_def gridOf_def)
          ultimately show ?thesis
            using pos False rd by (subst removeCells.simps) simp
        qed
      qed
    qed
  qed
qed

lemma gridOf_append: "list_all (\<lambda>a. a < length h) as \<Longrightarrow> gridOf (h @ xs) as = gridOf h as"
  by (auto simp: gridOf_def list_all_iff nth_append)

lemma copyRows_valid:
  "list_all (\<lambda>a. a < length h) as
   \<Longrightarrow> copyRows h as = (Inr [length h..<length h + length as], h @ gridOf h as)"
proof (induction as arbitrary: h)
  case Nil
  then show ?case by (simp add: gridOf_def)
next
  case (Cons a as)
  then have a: "a < length h" and as: "list_all (\<lambda>a. a < length h) as" by simp_all
  let ?h1 = "h @ [h ! a]"
  from as have "list_all (\<lambda>b. b < length ?h1) as"
    by (auto simp: list_all_iff)
  from Cons.IH [OF this]
  have "copyRows ?h1 as = (Inr [length ?h1..<length ?h1 + length as], ?h1 @ gridOf ?h1 as)" .
  moreover have "gridOf ?h1 as = gridOf h as"
    by (rule gridOf_append [OF as])
  moreover have "[length h..<length h + length (a # as)]
                 = length h # [length ?h1..<length ?h1 + length as]"
  proof -
    have "[length h..<length h + length (a # as)]
          = length h # [Suc (length h)..<length h + length (a # as)]"
      by (rule upt_conv_Cons) simp
    also have "[Suc (length h)..<length h + length (a # as)]
               = [length ?h1..<length ?h1 + length as]"
      by simp
    finally show ?thesis .
  qed
  moreover have "h @ gridOf h (a # as) = ?h1 @ gridOf h as"
    by (simp add: gridOf_def)
  ultimately show ?case
    using a by (simp only: copyRows.simps if_True prod.case sum.case)
qed

lemma copied_rows:
  assumes "list_all (\<lambda>a. a < length h) as"
  shows "validRows (h @ gridOf h as) [length h..<length h + length as]"
    and "gridOf (h @ gridOf h as) [length h..<length h + length as] = gridOf h as"
proof -
  show "validRows (h @ gridOf h as) [length h..<length h + length as]"
    by (simp add: validRows_def list_all_iff gridOf_def)
  show "gridOf (h @ gridOf h as) [length h..<length h + length as] = gridOf h as"
    by (rule nth_equalityI) (simp_all add: gridOf_def nth_append)
qed

lemma createPuzzleIn_refines:
  assumes args: "list_all (\<lambda>a. a < length h) grid"
    and ret: "createPuzzleIn rnd h grid n = Some out"
  shows "createPuzzle rnd (gridOf h grid) n = Some (abstractOut out)"
proof -
  let ?ps = "[length h..<length h + length grid]" and ?h1 = "h @ gridOf h grid"
  from ret copyRows_valid [OF args] have "removeCellsIn rnd 0 ?ps ?h1 n = Some out"
    by (simp add: createPuzzleIn_def)
  from removeCellsIn_refines [OF this] copied_rows [OF args] show ?thesis
    by (simp add: refinesPost_def createPuzzle_def copyGrid_id)
qed

lemma removeCells_returnsIn:
  assumes ret: "removeCells rnd i p a = Some res"
  shows "returnsIn rnd i p a"
proof (rule removeCells.raw_induct [where P = "\<lambda>rnd i p a res. returnsIn rnd i p a", OF _ ret])
  fix self :: "(nat \<Rightarrow> nat) \<Rightarrow> nat \<Rightarrow> grid \<Rightarrow> nat \<Rightarrow> (error + grid) option"
  fix rnd i p a res
  assume IH: "\<And>rnd i p a res. self rnd i p a = Some res \<Longrightarrow> returnsIn rnd i p a"
  assume body: "(if 0 < a
      then case get p (rnd i) (rnd (i + 1)) of Inl e \<Rightarrow> Some (Inl e)
           | Inr v \<Rightarrow>
               if v \<noteq> Null
               then case put p (rnd i) (rnd (i + 1)) Null of
                    Inl e \<Rightarrow> Some (Inl e)
                    | Inr puzzle' \<Rightarrow> self rnd (i + 2) puzzle' (a - 1)
               else self rnd (i + 2) p a
      else Some (Inr p)) = Some res"
  show "returnsIn rnd i p a"
    unfolding returnsIn_def
  proof (intro allI impI)
    fix h ps assume "validRows h ps \<and> gridOf h ps = p"
    then have valid: "validRows h ps" and p: "p = gridOf h ps" by simp_all
    show "\<exists>out. removeCellsIn rnd i ps h a = Some out"
    proof (cases "0 < a \<and> rnd i < length ps")
      case False
      then show ?thesis by (subst removeCellsIn.simps) auto
    next
      case True
      then have pos: "0 < a" and inRange: "rnd i < length ps" by simp_all
      with valid have here: "ps ! rnd i < length h"
        by (simp add: validRows_def list_all_length)
      have rd: "get p (rnd i) (rnd (i + 1)) = Inr (cellAt (h ! (ps ! rnd i)) (rnd (i + 1)))"
        using inRange by (simp add: p get_def gridOf_def)
      show ?thesis
      proof (cases "cellAt (h ! (ps ! rnd i)) (rnd (i + 1)) = Null")
        case True
        with pos rd body have "self rnd (i + 2) p a = Some res" by simp
        from IH [OF this] valid p
        have "\<exists>out. removeCellsIn rnd (i + 2) ps h a = Some out"
          by (simp add: returnsIn_def)
        with pos inRange here True show ?thesis
          by (subst removeCellsIn.simps) simp
      next
        case False
        let ?h' = "h[ps ! rnd i := rowPut (h ! (ps ! rnd i)) (rnd (i + 1)) Null]"
        have wr: "put p (rnd i) (rnd (i + 1)) Null = Inr (gridOf ?h' ps)"
          using inRange gridOf_update [OF valid inRange]
          by (simp add: p put_def gridOf_def)
        with False pos rd body have "self rnd (i + 2) (gridOf ?h' ps) (a - 1) = Some res"
          by simp
        from IH [OF this] validRows_update [OF valid]
        have "\<exists>out. removeCellsIn rnd (i + 2) ps ?h' (a - 1) = Some out"
          by (simp add: returnsIn_def)
        with pos inRange here False show ?thesis
          by (subst removeCellsIn.simps) simp
      qed
    qed
  qed
qed

lemma createPuzzle_store_model:
  assumes args: "list_all (\<lambda>a. a < length h) grid"
  shows "createPuzzle rnd (gridOf h grid) n = map_option abstractOut (createPuzzleIn rnd h grid n)"
proof (cases "createPuzzleIn rnd h grid n")
  case (Some out)
  with createPuzzleIn_refines [OF args] show ?thesis by simp
next
  case None
  let ?ps = "[length h..<length h + length grid]" and ?h1 = "h @ gridOf h grid"
  from None copyRows_valid [OF args] have stuck: "removeCellsIn rnd 0 ?ps ?h1 n = None"
    by (simp add: createPuzzleIn_def)
  have "createPuzzle rnd (gridOf h grid) n = None"
  proof (rule ccontr)
    assume "createPuzzle rnd (gridOf h grid) n \<noteq> None"
    then obtain res where "removeCells rnd 0 (gridOf h grid) n = Some res"
      by (auto simp: createPuzzle_def copyGrid_id)
    from removeCells_returnsIn [OF this]
    have "\<exists>out. removeCellsIn rnd 0 ?ps ?h1 n = Some out"
      unfolding returnsIn_def using copied_rows [OF args] by blast
    with stuck show False by simp
  qed
  with None show ?thesis by simp
qed

section \<open>The grid generator\<close>

text \<open>
  A grid is consistent when it is a 9 by 9 board whose cells are empty or hold 1..9
  and no value stands twice among related cells (same row, same column or same box);
  \<open>extends s g\<close> says that \<open>s\<close> is a filled consistent grid that agrees with \<open>g\<close> on
  the cells \<open>g\<close> has filled.
\<close>

lemma cells_set: "set cells = {0..<9} \<times> {0..<9}"
  by (auto simp: cells_def)

lemma consistentD:
  assumes "consistent g"
  shows "gridShape g"
    and "\<And>r c. r < 9 \<Longrightarrow> c < 9 \<Longrightarrow> cellOk (g ! r ! c)"
    and "\<And>r c r' c'. r < 9 \<Longrightarrow> c < 9 \<Longrightarrow> r' < 9 \<Longrightarrow> c' < 9 \<Longrightarrow> related r c r' c'
           \<Longrightarrow> (r', c') \<noteq> (r, c) \<Longrightarrow> g ! r ! c \<noteq> Null \<Longrightarrow> g ! r' ! c' \<noteq> g ! r ! c"
proof -
  from assms show "gridShape g" by (simp add: consistent_def)
  from assms have at: "consistentAt g rc" if "rc \<in> set cells" for rc
    using that by (simp add: consistent_def list_all_iff)
  show "cellOk (g ! r ! c)" if "r < 9" "c < 9" for r c
    using at [of "(r, c)"] that by (simp add: cells_set consistentAt_def)
  show "g ! r' ! c' \<noteq> g ! r ! c"
    if "r < 9" "c < 9" "r' < 9" "c' < 9" "related r c r' c'" "(r', c') \<noteq> (r, c)" "g ! r ! c \<noteq> Null"
    for r c r' c'
  proof -
    have "(r', c') \<in> set cells" using that by (simp add: cells_set)
    with at [of "(r, c)"] that show ?thesis
      by (auto simp: cells_set consistentAt_def list_all_iff)
  qed
qed

lemma consistentI:
  assumes "gridShape g"
    and "\<And>r c. r < 9 \<Longrightarrow> c < 9 \<Longrightarrow> cellOk (g ! r ! c)"
    and "\<And>r c r' c'. r < 9 \<Longrightarrow> c < 9 \<Longrightarrow> r' < 9 \<Longrightarrow> c' < 9 \<Longrightarrow> related r c r' c'
           \<Longrightarrow> (r', c') \<noteq> (r, c) \<Longrightarrow> g ! r ! c \<noteq> Null \<Longrightarrow> g ! r' ! c' \<noteq> g ! r ! c"
  shows "consistent g"
  unfolding consistent_def consistentAt_def list_all_iff cells_set
  using assms by auto

lemma noNull_iff: "noNull g \<longleftrightarrow> (\<forall>r<9. \<forall>c<9. g ! r ! c \<noteq> Null)"
  by (auto simp: noNull_def list_all_iff cells_set)

lemma related_sym: "related r c r' c' \<Longrightarrow> related r' c' r c"
  by (auto simp: related_def)

subsection \<open>The constraint checker on a board\<close>

lemma anyE_all:
  "(\<And>x. x \<in> set xs \<Longrightarrow> p x = Inr (q x)) \<Longrightarrow> anyE p xs = Inr (\<exists>x\<in>set xs. q x)"
  by (induction xs) auto

lemma lineHit_board:
  "gridShape g \<Longrightarrow> r < 9 \<Longrightarrow> c < 9 \<Longrightarrow> i < 9
   \<Longrightarrow> lineHit g r c n i = Inr (g ! r ! i = Num n \<or> g ! i ! c = Num n)"
  by (simp add: lineHit_def gridShape_get)

lemma boxHit_board:
  "gridShape g \<Longrightarrow> sr + fst ij < 9 \<Longrightarrow> sc + snd ij < 9
   \<Longrightarrow> boxHit g sr sc n ij = Inr (g ! (sr + fst ij) ! (sc + snd ij) = Num n)"
  by (simp add: boxHit_def gridShape_get)

lemma box_offsets: "set (concat (map (\<lambda>i. map (\<lambda>j. (i, j)) [0..<3]) [0..<3])) = {0..<3} \<times> {0..<3}"
  by auto

lemma box_index:
  fixes r i :: nat
  assumes "r < 9" "i < 3"
  shows "r div 3 * 3 + i < 9" and "(r div 3 * 3 + i) div 3 = r div 3"
proof -
  from assms(1) have "r div 3 < 3" by (simp add: div_less_iff_less_mult)
  with assms(2) show "r div 3 * 3 + i < 9" by simp
  from assms(2) show "(r div 3 * 3 + i) div 3 = r div 3" by simp
qed

lemma box_member:
  assumes "r' div 3 = r div 3"
  shows "r div 3 * 3 + r' mod 3 = (r' :: nat)"
  using div_mult_mod_eq [of r' 3] assms by simp

lemma isValidPlacement_board:
  assumes shape: "gridShape g" and r: "r < 9" and c: "c < 9"
  shows "isValidPlacement g r c n = Inr (\<not> clash g r c n)"
proof -
  let ?line = "\<exists>i\<in>set [0..<9]. g ! r ! i = Num n \<or> g ! i ! c = Num n"
  let ?box = "\<exists>ij\<in>{0..<3} \<times> {0..<3}. g ! (r div 3 * 3 + fst ij) ! (c div 3 * 3 + snd ij) = Num n"
  have line: "anyE (lineHit g r c n) [0..<9] = Inr ?line"
    by (rule anyE_all) (simp add: lineHit_board [OF shape r c])
  have box: "anyE (boxHit g (r div 3 * 3) (c div 3 * 3) n)
               (concat (map (\<lambda>i. map (\<lambda>j. (i, j)) [0..<3]) [0..<3])) = Inr ?box"
    unfolding box_offsets [symmetric]
  proof (rule anyE_all)
    fix ij :: "nat \<times> nat"
    assume "ij \<in> set (concat (map (\<lambda>i. map (\<lambda>j. (i, j)) [0..<3]) [0..<3]))"
    then have "fst ij < 3" "snd ij < 3" by auto
    with r c have "r div 3 * 3 + fst ij < 9" "c div 3 * 3 + snd ij < 9"
      by (simp_all add: box_index)
    then show "boxHit g (r div 3 * 3) (c div 3 * 3) n ij
               = Inr (g ! (r div 3 * 3 + fst ij) ! (c div 3 * 3 + snd ij) = Num n)"
      by (rule boxHit_board [OF shape])
  qed
  have "clash g r c n \<longleftrightarrow> ?line \<or> ?box"
  proof
    assume "clash g r c n"
    then obtain r' c' where b: "r' < 9" "c' < 9" and rel: "related r c r' c'"
      and v: "g ! r' ! c' = Num n"
      by (auto simp: clash_def)
    from rel consider "r' = r" | "c' = c" | "r' div 3 = r div 3" "c' div 3 = c div 3"
      by (auto simp: related_def)
    then show "?line \<or> ?box"
    proof cases
      case 1
      with b v show ?thesis by auto
    next
      case 2
      with b v show ?thesis by auto
    next
      case 3
      then have "r div 3 * 3 + r' mod 3 = r'" "c div 3 * 3 + c' mod 3 = c'"
        by (simp_all add: box_member)
      with v have "g ! (r div 3 * 3 + fst (r' mod 3, c' mod 3))
                     ! (c div 3 * 3 + snd (r' mod 3, c' mod 3)) = Num n" by simp
      moreover have "(r' mod 3, c' mod 3) \<in> {0..<3} \<times> {0..<3}" by simp
      ultimately have ?box by blast
      then show ?thesis ..
    qed
  next
    assume "?line \<or> ?box"
    then show "clash g r c n"
    proof
      assume ?line
      then obtain i where "i < 9" "g ! r ! i = Num n \<or> g ! i ! c = Num n" by auto
      with r c show ?thesis
        unfolding clash_def related_def by blast
    next
      assume ?box
      then obtain i j where ij: "i < 3" "j < 3"
        and v: "g ! (r div 3 * 3 + i) ! (c div 3 * 3 + j) = Num n" by auto
      from ij r c have "r div 3 * 3 + i < 9" "c div 3 * 3 + j < 9"
        "(r div 3 * 3 + i) div 3 = r div 3" "(c div 3 * 3 + j) div 3 = c div 3"
        by (simp_all add: box_index)
      with v show ?thesis
        unfolding clash_def related_def by blast
    qed
  qed
  with line box show ?thesis by (simp add: isValidPlacement_def)
qed

subsection \<open>The scan for the first empty cell\<close>

lemma firstNull_find:
  "gridShape g \<Longrightarrow> set ps \<subseteq> {0..<9} \<times> {0..<9}
   \<Longrightarrow> firstNull g ps = Inr (find (\<lambda>rc. g ! fst rc ! snd rc = Null) ps)"
proof (induction ps)
  case Nil
  then show ?case by simp
next
  case (Cons rc ps)
  then have "fst rc < 9" "snd rc < 9" by auto
  with Cons show ?case by (simp add: gridShape_get)
qed

lemma firstNull_none:
  assumes "gridShape g" "firstNull g cells = Inr None"
  shows "noNull g"
proof -
  from assms firstNull_find [OF assms(1), of cells]
  have "find (\<lambda>rc. g ! fst rc ! snd rc = Null) cells = None" by (simp add: cells_set)
  then show ?thesis by (simp add: find_None_iff noNull_def list_all_iff)
qed

lemma firstNull_some:
  assumes "gridShape g" "firstNull g cells = Inr (Some rc)"
  shows "fst rc < 9 \<and> snd rc < 9 \<and> g ! fst rc ! snd rc = Null"
proof -
  from assms firstNull_find [OF assms(1), of cells]
  have "find (\<lambda>rc. g ! fst rc ! snd rc = Null) cells = Some rc" by (simp add: cells_set)
  then have "rc \<in> set cells \<and> g ! fst rc ! snd rc = Null"
    by (auto simp: find_Some_iff)
  then show ?thesis by (auto simp: cells_set)
qed

lemma firstNull_total:
  assumes "gridShape g"
  shows "\<exists>x. firstNull g cells = Inr x"
  using firstNull_find [OF assms, of cells] by (simp add: cells_set)

subsection \<open>Placing and removing a value\<close>

lemma setCell_setCell:
  assumes "gridShape g" "r < 9" "c < 9" "g ! r ! c = v"
  shows "setCell (setCell g r c w) r c v = g"
proof -
  from assms have len: "r < length g" "c < length (g ! r)"
    using gridShape_row [of g r] by (simp_all add: gridShape_def)
  from len(2) assms(4) have "(g ! r)[c := v] = g ! r"
    by (simp add: list_update_same_conv)
  with len(1) show ?thesis
    by (simp add: setCell_def)
qed

lemma consistent_place:
  assumes con: "consistent g" and r: "r < 9" and c: "c < 9"
    and n: "1 \<le> n" "n \<le> 9" and free: "\<not> clash g r c n"
  shows "consistent (setCell g r c (Num n))"
proof (rule consistentI)
  note shape = consistentD(1) [OF con]
  show "gridShape (setCell g r c (Num n))" by (rule gridShape_setCell [OF shape])
  show "cellOk (setCell g r c (Num n) ! r1 ! c1)" if "r1 < 9" "c1 < 9" for r1 c1
    using setCell_nth [OF shape r c that] consistentD(2) [OF con that] n by simp
  show "setCell g r c (Num n) ! r2 ! c2 \<noteq> setCell g r c (Num n) ! r1 ! c1"
    if b1: "r1 < 9" "c1 < 9" and b2: "r2 < 9" "c2 < 9" and rel: "related r1 c1 r2 c2"
      and ne: "(r2, c2) \<noteq> (r1, c1)" and nn: "setCell g r c (Num n) ! r1 ! c1 \<noteq> Null"
    for r1 c1 r2 c2
  proof -
    note at1 = setCell_nth [OF shape r c b1, of "Num n"]
    note at2 = setCell_nth [OF shape r c b2, of "Num n"]
    show ?thesis
    proof (cases "r1 = r \<and> c1 = c")
      case True
      with ne have "\<not> (r2 = r \<and> c2 = c)" by auto
      moreover from free b2 rel True have "g ! r2 ! c2 \<noteq> Num n"
        by (auto simp: clash_def)
      ultimately show ?thesis using at1 at2 True by simp
    next
      case False
      show ?thesis
      proof (cases "r2 = r \<and> c2 = c")
        case True
        from free b1 related_sym [OF rel] True have "g ! r1 ! c1 \<noteq> Num n"
          by (auto simp: clash_def)
        with at1 at2 True False show ?thesis by auto
      next
        case False
        with at2 have e2: "setCell g r c (Num n) ! r2 ! c2 = g ! r2 ! c2" by simp
        from at1 \<open>\<not> (r1 = r \<and> c1 = c)\<close>
        have e1: "setCell g r c (Num n) ! r1 ! c1 = g ! r1 ! c1" by simp
        with nn have "g ! r1 ! c1 \<noteq> Null" by simp
        from consistentD(3) [OF con b1 b2 rel ne this] show ?thesis
          by (simp add: e1 e2)
      qed
    qed
  qed
qed

lemma extends_free:
  assumes ext: "extends s g" and shape: "gridShape g" and r: "r < 9" and c: "c < 9"
    and empty: "g ! r ! c = Null" and v: "s ! r ! c = Num n"
  shows "\<not> clash g r c n" and "extends s (setCell g r c (Num n))"
proof -
  from ext have con: "consistent s" and same: "\<And>r c. r < 9 \<Longrightarrow> c < 9 \<Longrightarrow> g ! r ! c \<noteq> Null \<Longrightarrow> s ! r ! c = g ! r ! c"
    by (simp_all add: extends_def)
  show "\<not> clash g r c n"
  proof
    assume "clash g r c n"
    then obtain r' c' where b: "r' < 9" "c' < 9" and rel: "related r c r' c'"
      and hit: "g ! r' ! c' = Num n" by (auto simp: clash_def)
    from hit empty have ne: "(r', c') \<noteq> (r, c)" by auto
    from same [OF b] hit have "s ! r' ! c' = Num n" by simp
    with consistentD(3) [OF con r c b rel ne] v show False by simp
  qed
  show "extends s (setCell g r c (Num n))"
    unfolding extends_def
  proof (intro conjI allI impI)
    from ext show "consistent s" "noNull s" by (simp_all add: extends_def)
    fix r1 c1 assume b: "r1 < 9" "c1 < 9" and nn: "setCell g r c (Num n) ! r1 ! c1 \<noteq> Null"
    with setCell_nth [OF shape r c b, of "Num n"] v same [OF b]
    show "s ! r1 ! c1 = setCell g r c (Num n) ! r1 ! c1" by (auto split: if_splits)
  qed
qed

lemma extends_value:
  assumes "extends s g" "r < 9" "c < 9"
  shows "\<exists>n. s ! r ! c = Num n \<and> 1 \<le> n \<and> n \<le> 9"
proof -
  from assms have "cellOk (s ! r ! c)" "s ! r ! c \<noteq> Null"
    using consistentD(2) [of s r c] by (simp_all add: extends_def noNull_iff)
  then show ?thesis by (cases "s ! r ! c") auto
qed

subsection \<open>The backtracking search\<close>

lemma scanOkI:
  "fillGrid shuffle Scan g k = Some (Inr (b, g', k'))
   \<Longrightarrow> (if b then consistent g' \<and> noNull g' else g' = g \<and> (\<forall>s. \<not> extends s g))
   \<Longrightarrow> scanOk shuffle g k"
  unfolding scanOk_def by (intro exI conjI)

lemma tryOkI:
  "fillGrid shuffle (Try r c nums) g k = Some (Inr (b, g', k'))
   \<Longrightarrow> (if b then consistent g' \<and> noNull g'
        else g' = g \<and> (\<forall>s. extends s g \<longrightarrow> s ! r ! c \<notin> Num ` set nums))
   \<Longrightarrow> tryOk shuffle r c nums g k"
  unfolding tryOk_def by (intro exI conjI)

lemma fillGrid_Scan:
  "fillGrid shuffle Scan g k =
     (case firstNull g cells of Inl e \<Rightarrow> Some (Inl e)
      | Inr None \<Rightarrow> Some (Inr (True, g, k))
      | Inr (Some rc) \<Rightarrow> fillGrid shuffle (Try (fst rc) (snd rc) (shuffle k)) g (k + 1))"
  by (subst fillGrid.simps) simp

lemma fillGrid_Try_Nil: "fillGrid shuffle (Try r c []) g k = Some (Inr (False, g, k))"
  by (subst fillGrid.simps) simp

lemma fillGrid_Try_Cons:
  "fillGrid shuffle (Try r c (n # rest)) g k =
     (case isValidPlacement g r c n of Inl e \<Rightarrow> Some (Inl e)
      | Inr ok \<Rightarrow>
          if ok then
            (case put g r c (Num n) of Inl e \<Rightarrow> Some (Inl e)
             | Inr placed \<Rightarrow>
                 Option.bind (fillGrid shuffle Scan placed k)
                   (\<lambda>res. case res of Inl e \<Rightarrow> Some (Inl e)
                      | Inr (filled, grid', k') \<Rightarrow>
                          if filled then Some (Inr (True, grid', k'))
                          else (case put grid' r c Null of Inl e \<Rightarrow> Some (Inl e)
                                | Inr cleared \<Rightarrow> fillGrid shuffle (Try r c rest) cleared k')))
          else fillGrid shuffle (Try r c rest) g k)"
  by (subst fillGrid.simps) simp

lemma fillGrid_Try_ok:
  assumes outer: "\<And>g' k'. consistent g' \<Longrightarrow> holes g' < holes g \<Longrightarrow> scanOk shuffle g' k'"
    and con: "consistent g" and r: "r < 9" and c: "c < 9" and empty: "g ! r ! c = Null"
  shows "set nums \<subseteq> {1..9} \<Longrightarrow> tryOk shuffle r c nums g k"
proof (induction nums arbitrary: k)
  case Nil
  show ?case by (auto simp: tryOk_def fillGrid_Try_Nil)
next
  case (Cons n rest k)
  note shape = consistentD(1) [OF con]
  from Cons.prems have n: "1 \<le> n" "n \<le> 9" and rest: "set rest \<subseteq> {1..9}" by auto
  note valid = isValidPlacement_board [OF shape r c, of n]
  show ?case
  proof (cases "clash g r c n")
    case True
    then have step: "fillGrid shuffle (Try r c (n # rest)) g k = fillGrid shuffle (Try r c rest) g k"
      by (simp add: fillGrid_Try_Cons valid)
    from Cons.IH [OF rest, of k] obtain b g' k'
      where ret: "fillGrid shuffle (Try r c rest) g k = Some (Inr (b, g', k'))"
        and post: "if b then consistent g' \<and> noNull g'
                   else g' = g \<and> (\<forall>s. extends s g \<longrightarrow> s ! r ! c \<notin> Num ` set rest)"
      unfolding tryOk_def by blast
    have "s ! r ! c \<noteq> Num n" if "extends s g" for s
      using extends_free(1) [OF that shape r c empty] True by blast
    with post have "if b then consistent g' \<and> noNull g'
                   else g' = g \<and> (\<forall>s. extends s g \<longrightarrow> s ! r ! c \<notin> Num ` set (n # rest))"
      by (cases b) auto
    with step ret show ?thesis by (intro tryOkI [of _ _ _ _ _ _ b g' k']) simp_all
  next
    case False
    let ?g1 = "setCell g r c (Num n)"
    have con1: "consistent ?g1" by (rule consistent_place [OF con r c n False])
    have less: "holes ?g1 < holes g"
      using holes_fill [OF shape r c empty, of "Num n"] by simp
    from outer [of ?g1 k, OF con1 less] obtain b1 g1' k1
      where ret1: "fillGrid shuffle Scan ?g1 k = Some (Inr (b1, g1', k1))"
        and post1: "if b1 then consistent g1' \<and> noNull g1' else g1' = ?g1 \<and> (\<forall>s. \<not> extends s ?g1)"
      unfolding scanOk_def by blast
    show ?thesis
    proof (cases b1)
      case True
      with False ret1 have "fillGrid shuffle (Try r c (n # rest)) g k = Some (Inr (True, g1', k1))"
        by (simp add: fillGrid_Try_Cons valid gridShape_put [OF shape r c])
      with True post1 show ?thesis by (intro tryOkI [of _ _ _ _ _ _ True g1' k1]) simp_all
    next
      case b1: False
      with post1 have restored: "g1' = ?g1" and dead: "\<And>s. \<not> extends s ?g1" by simp_all
      have "put ?g1 r c Null = Inr (setCell ?g1 r c Null)"
        by (rule gridShape_put [OF gridShape_setCell [OF shape] r c])
      also have "setCell ?g1 r c Null = g"
        by (rule setCell_setCell [OF shape r c empty])
      finally have undo: "put ?g1 r c Null = Inr g" .
      from False ret1 b1 restored undo
      have step: "fillGrid shuffle (Try r c (n # rest)) g k = fillGrid shuffle (Try r c rest) g k1"
        by (simp add: fillGrid_Try_Cons valid gridShape_put [OF shape r c])
      from Cons.IH [OF rest, of k1] obtain b g' k'
        where ret: "fillGrid shuffle (Try r c rest) g k1 = Some (Inr (b, g', k'))"
          and post: "if b then consistent g' \<and> noNull g'
                     else g' = g \<and> (\<forall>s. extends s g \<longrightarrow> s ! r ! c \<notin> Num ` set rest)"
        unfolding tryOk_def by blast
      have "s ! r ! c \<noteq> Num n" if "extends s g" for s
        using extends_free(2) [OF that shape r c empty] dead by blast
      with post have "if b then consistent g' \<and> noNull g'
                     else g' = g \<and> (\<forall>s. extends s g \<longrightarrow> s ! r ! c \<notin> Num ` set (n # rest))"
        by (cases b) auto
      with step ret show ?thesis by (intro tryOkI [of _ _ _ _ _ _ b g' k']) simp_all
    qed
  qed
qed

lemma fillGrid_Scan_ok:
  assumes perm: "\<And>k. set (shuffle k) = {1..9}"
  shows "consistent g \<Longrightarrow> scanOk shuffle g k"
proof (induction "holes g" arbitrary: g k rule: less_induct)
  case (less g k)
  note con = less.prems
  note shape = consistentD(1) [OF con]
  from firstNull_total [OF shape] obtain x where x: "firstNull g cells = Inr x" ..
  show ?case
  proof (cases x)
    case None
    with x firstNull_none [OF shape] have "noNull g" by simp
    with con x None show ?thesis
      by (intro scanOkI [of _ _ _ True g k]) (simp_all add: fillGrid_Scan)
  next
    case (Some rc)
    with x firstNull_some [OF shape] have rc: "fst rc < 9" "snd rc < 9"
      and empty: "g ! fst rc ! snd rc = Null" by simp_all
    from x Some have step: "fillGrid shuffle Scan g k
        = fillGrid shuffle (Try (fst rc) (snd rc) (shuffle k)) g (k + 1)"
      by (simp add: fillGrid_Scan)
    have "tryOk shuffle (fst rc) (snd rc) (shuffle k) g (k + 1)"
    proof (rule fillGrid_Try_ok [OF _ con rc empty])
      show "scanOk shuffle g' k'" if "consistent g'" "holes g' < holes g" for g' k'
        using less.hyps [OF that(2) that(1)] .
      show "set (shuffle k) \<subseteq> {1..9}" by (simp add: perm)
    qed
    then obtain b g' k'
      where ret: "fillGrid shuffle (Try (fst rc) (snd rc) (shuffle k)) g (k + 1) = Some (Inr (b, g', k'))"
        and post: "if b then consistent g' \<and> noNull g'
                   else g' = g \<and> (\<forall>s. extends s g \<longrightarrow> s ! fst rc ! snd rc \<notin> Num ` set (shuffle k))"
      unfolding tryOk_def by blast
    have "\<not> extends s g" if "\<not> b" for s
    proof
      assume ext: "extends s g"
      from extends_value [OF ext rc] obtain n where "s ! fst rc ! snd rc = Num n" "1 \<le> n" "n \<le> 9"
        by blast
      then have "s ! fst rc ! snd rc \<in> Num ` set (shuffle k)" by (simp add: perm)
      with post that ext show False by simp
    qed
    with post have "if b then consistent g' \<and> noNull g' else g' = g \<and> (\<forall>s. \<not> extends s g)"
      by (cases b) auto
    with step ret show ?thesis by (intro scanOkI [of _ _ _ b g' k']) simp_all
  qed
qed

lemma emptyGrid_cell: "r < 9 \<Longrightarrow> c < 9 \<Longrightarrow> emptyGrid ! r ! c = Null"
  by (simp add: emptyGrid_def)

lemma emptyGrid_consistent: "consistent emptyGrid"
proof (rule consistentI)
  show "gridShape emptyGrid" by (simp add: emptyGrid_def gridShape_def list_all_iff)
qed (simp_all add: emptyGrid_cell)

lemma exampleSolution_consistent: "consistent exampleSolution"
  by code_simp

lemma exampleSolution_noNull: "noNull exampleSolution"
  by code_simp

lemma emptyGrid_solvable: "extends exampleSolution emptyGrid"
  by (simp add: extends_def exampleSolution_consistent exampleSolution_noNull emptyGrid_cell)

lemma generateSudokuGrid_ok:
  assumes perm: "\<And>k. set (shuffle k) = {1..9}"
  shows "\<exists>g. generateSudokuGrid shuffle = Some (Inr g) \<and> consistent g \<and> noNull g"
proof -
  from fillGrid_Scan_ok [of shuffle emptyGrid 0, OF perm emptyGrid_consistent] obtain b g k
    where ret: "fillGrid shuffle Scan emptyGrid 0 = Some (Inr (b, g, k))"
      and post: "if b then consistent g \<and> noNull g else g = emptyGrid \<and> (\<forall>s. \<not> extends s emptyGrid)"
    unfolding scanOk_def by blast
  from post emptyGrid_solvable have "consistent g \<and> noNull g" by (cases b) auto
  with ret show ?thesis by (simp add: generateSudokuGrid_def)
qed

subsection \<open>Rows, columns and boxes of a filled consistent grid\<close>

lemma oneToNineI:
  assumes len: "length xs = 9" and dist: "distinct xs" and sub: "set xs \<subseteq> Num ` {1..<10}"
  shows "oneToNine xs"
proof -
  have "card (Num ` {1..<10::nat}) = 9"
    by (simp add: card_image inj_on_def)
  moreover from len dist have "card (set xs) = 9"
    by (simp add: distinct_card)
  ultimately have "set xs = Num ` {1..<10}"
    using sub by (intro card_subset_eq) simp_all
  then have "set xs = set (map Num [1..<10])" by simp
  moreover have "distinct (map Num [1..<10])"
    by (simp add: distinct_map inj_on_def)
  ultimately show ?thesis
    unfolding oneToNine_def using dist by (simp only: set_eq_iff_mset_eq_distinct)
qed

lemma filled_cell:
  assumes "consistent g" "noNull g" "r < 9" "c < 9"
  shows "g ! r ! c \<in> Num ` {1..<10}"
proof -
  from assms have "cellOk (g ! r ! c)" "g ! r ! c \<noteq> Null"
    using consistentD(2) [of g r c] by (simp_all add: noNull_iff)
  then show ?thesis by (cases "g ! r ! c") auto
qed

lemma filled_differ:
  assumes "consistent g" "noNull g" "r < 9" "c < 9" "r' < 9" "c' < 9"
    and "related r c r' c'" "(r', c') \<noteq> (r, c)"
  shows "g ! r' ! c' \<noteq> g ! r ! c"
  using consistentD(3) [OF assms(1,3,4,5,6,7,8)] assms(2,3,4) by (simp add: noNull_iff)

lemma valid_row:
  assumes con: "consistent g" and full: "noNull g" and i: "i < 9"
  shows "oneToNine (rowOf g i)"
proof (rule oneToNineI)
  note shape = consistentD(1) [OF con]
  show len: "length (rowOf g i) = 9" by (simp add: rowOf_def gridShape_row [OF shape i])
  show "distinct (rowOf g i)"
    unfolding distinct_conv_nth len
  proof (intro allI impI)
    fix a b :: nat assume "a < 9" "b < 9" "a \<noteq> b"
    then show "rowOf g i ! a \<noteq> rowOf g i ! b"
      using filled_differ [OF con full i _ i, of b a] by (simp add: rowOf_def related_def)
  qed
  show "set (rowOf g i) \<subseteq> Num ` {1..<10}"
    unfolding set_conv_nth len using filled_cell [OF con full i] by (auto simp: rowOf_def)
qed

lemma valid_col:
  assumes con: "consistent g" and full: "noNull g" and j: "j < 9"
  shows "oneToNine (colOf g j)"
proof (rule oneToNineI)
  show len: "length (colOf g j) = 9" by (simp add: colOf_def)
  show "distinct (colOf g j)"
    unfolding distinct_conv_nth len
  proof (intro allI impI)
    fix a b :: nat assume "a < 9" "b < 9" "a \<noteq> b"
    then show "colOf g j ! a \<noteq> colOf g j ! b"
      using filled_differ [OF con full _ j _ j, of b a] by (simp add: colOf_def related_def)
  qed
  show "set (colOf g j) \<subseteq> Num ` {1..<10}"
    using filled_cell [OF con full _ j] by (auto simp: colOf_def)
qed

lemma box_cell:
  fixes b k :: nat
  assumes "b < 9" "k < 9"
  shows "b div 3 * 3 + k div 3 < 9" and "b mod 3 * 3 + k mod 3 < 9"
    and "(b div 3 * 3 + k div 3) div 3 = b div 3" and "(b mod 3 * 3 + k mod 3) div 3 = b mod 3"
proof -
  from assms have d: "b div 3 < 3" "k div 3 < 3" by (simp_all add: div_less_iff_less_mult)
  have m: "b mod 3 < 3" "k mod 3 < 3" by simp_all
  from d show "b div 3 * 3 + k div 3 < 9" by simp
  from m show "b mod 3 * 3 + k mod 3 < 9" by simp
  from d show "(b div 3 * 3 + k div 3) div 3 = b div 3" by simp
  from m show "(b mod 3 * 3 + k mod 3) div 3 = b mod 3" by simp
qed

lemma box_cell_inj:
  fixes b k k' :: nat
  assumes "b div 3 * 3 + k div 3 = b div 3 * 3 + k' div 3"
    and "b mod 3 * 3 + k mod 3 = b mod 3 * 3 + k' mod 3"
  shows "k = k'"
proof -
  from assms have "k div 3 = k' div 3" "k mod 3 = k' mod 3" by simp_all
  then show ?thesis by (metis div_mult_mod_eq)
qed

lemma valid_box:
  assumes con: "consistent g" and full: "noNull g" and b: "b < 9"
  shows "oneToNine (boxOf g b)"
proof (rule oneToNineI)
  show len: "length (boxOf g b) = 9" by (simp add: boxOf_def)
  show "distinct (boxOf g b)"
    unfolding distinct_conv_nth len
  proof (intro allI impI)
    fix k k' :: nat assume k: "k < 9" and k': "k' < 9" and ne: "k \<noteq> k'"
    let ?r = "b div 3 * 3 + k div 3" and ?c = "b mod 3 * 3 + k mod 3"
    let ?r' = "b div 3 * 3 + k' div 3" and ?c' = "b mod 3 * 3 + k' mod 3"
    from ne box_cell_inj [of b k' k] have "(?r', ?c') \<noteq> (?r, ?c)" by auto
    moreover have "related ?r ?c ?r' ?c'"
      by (simp only: related_def box_cell(3,4) [OF b k] box_cell(3,4) [OF b k']) simp
    ultimately have "g ! ?r' ! ?c' \<noteq> g ! ?r ! ?c"
      using filled_differ [OF con full box_cell(1,2) [OF b k] box_cell(1,2) [OF b k']] by blast
    with k k' show "boxOf g b ! k \<noteq> boxOf g b ! k'"
      by (simp add: boxOf_def del: upt_Suc)
  qed
  show "set (boxOf g b) \<subseteq> Num ` {1..<10}"
  proof
    fix v assume "v \<in> set (boxOf g b)"
    then obtain k where "k < 9" "v = g ! (b div 3 * 3 + k div 3) ! (b mod 3 * 3 + k mod 3)"
      by (auto simp: boxOf_def)
    with filled_cell [OF con full box_cell(1,2) [OF b]] show "v \<in> Num ` {1..<10}" by simp
  qed
qed

lemma cellsInRangeI:
  assumes con: "consistent g" and full: "noNull g"
  shows "cellsInRange g"
  unfolding cellsInRange_def list_all_length
proof (intro allI impI)
  note shape = consistentD(1) [OF con]
  fix r c assume "r < length g" "c < length (g ! r)"
  with shape have "r < 9" "c < 9"
    using gridShape_row [of g r] by (simp_all add: gridShape_def)
  from filled_cell [OF con full this] show "g ! r ! c \<in> set (map Num [1..<10])" by simp
qed

lemma validSolutionI:
  assumes "consistent g" "noNull g"
  shows "validSolution g"
  unfolding validSolution_def list_all_iff
  using consistentD(1) [OF assms(1)] valid_row [OF assms] valid_col [OF assms] valid_box [OF assms]
  by simp

lemma mset_rotate_same: "mset (rotate k xs) = mset xs"
  by (metis append_take_drop_id mset_append union_commute rotate_drop_take)

subsection \<open>The generator at work\<close>

text \<open>
  Two runs of the model.  With the guided shuffles every first candidate fits and the
  generator returns the example solution after 81 placements.  On the example solution
  with the last cell emptied and a 2 put before it, no candidate fits the last cell:
  \<^verbatim>\<open>fillGrid\<close> draws one shuffle, tries its nine numbers and returns \<^verbatim>\<open>false\<close> with the grid
  as it was.
\<close>

lemma generateSudokuGrid_guided:
  "generateSudokuGrid guidedShuffle = Some (Inr exampleSolution)"
  by code_simp

lemma fillGrid_dead_end:
  "fillGrid (\<lambda>k. [1..<10]) Scan (setCell (setCell exampleSolution 8 8 Null) 8 7 (Num 2)) 0
     = Some (Inr (False, setCell (setCell exampleSolution 8 8 Null) 8 7 (Num 2), 1))"
  by code_simp

lemma shuffled_set:
  assumes "shuffled shuffle"
  shows "set (shuffle k) = {1..9}"
proof -
  from assms have "mset (shuffle k) = mset [1..<10]"
    by (simp only: shuffled_def)
  then have "set (shuffle k) = set [1..<10]"
    by (rule mset_eq_setD)
  also have "\<dots> = {1..<10}"
    by (simp only: set_upt)
  also have "\<dots> = {1..9}"
    by auto
  finally show ?thesis .
qed

text \<open>
  C1.  Whatever orders the shuffles produce (each a permutation of 1..9),
  \<^verbatim>\<open>generateSudokuGrid\<close> returns: it neither throws nor runs for ever, and the
  grid it returns is a 9 by 9 board in which every cell holds a number from 1 to 9
  and every row, every column and every 3 by 3 box is a permutation of 1..9.  So no
  cell is left empty.  The search succeeds because it is exhaustive below each
  placement and the empty board has a solution.
\<close>

theorem generateSudokuGrid_valid:
  assumes "shuffled shuffle"
  shows "\<exists>g. generateSudokuGrid shuffle = Some (Inr g) \<and> cellsInRange g \<and> validSolution g"
proof -
  from generateSudokuGrid_ok [of shuffle, OF shuffled_set [OF assms]] obtain g
    where "generateSudokuGrid shuffle = Some (Inr g)" "consistent g" "noNull g"
    by blast
  then show ?thesis
    using validSolutionI [of g] cellsInRangeI [of g] by blast
qed

theorem generateSudokuGrid_valid_witness:
  "shuffled guidedShuffle
   \<and> generateSudokuGrid guidedShuffle = Some (Inr exampleSolution)
   \<and> cellsInRange exampleSolution \<and> validSolution exampleSolution
   \<and> shuffled exampleShuffle
   \<and> (\<exists>g. generateSudokuGrid exampleShuffle = Some (Inr g)
          \<and> cellsInRange g \<and> validSolution g)"
proof -
  have s: "shuffled guidedShuffle"
    by (simp add: shuffled_def guidedShuffle_def mset_rotate_same split: jsval.splits)
  have s': "shuffled exampleShuffle"
    by (simp only: shuffled_def exampleShuffle_def mset_rotate_same) simp
  from generateSudokuGrid_valid [OF s] generateSudokuGrid_guided
    generateSudokuGrid_valid [OF s'] s s'
  show ?thesis by auto
qed

section \<open>The given cells\<close>

text \<open>
  Every handler but \<^verbatim>\<open>reset\<close> keeps the given cells: the original puzzle's given cells
  are the solution's, and the current puzzle and every snapshot of the log agree with
  the original puzzle on them.  The handlers that draw random numbers are taken with
  draws in 0..8 and shuffles that are permutations.
\<close>

lemma agreesOnGiven_self: "gridShape g \<Longrightarrow> agreesOnGiven g g"
  by (simp add: agreesOnGiven_def derivedFrom_def)

lemma given_is_solution:
  assumes "givenInvariant s" "r < 9" "c < 9" "originalPuzzle s ! r ! c \<noteq> Null"
  shows "puzzle s ! r ! c = solution s ! r ! c"
  using assms by (simp add: givenInvariant_def agreesOnGiven_def derivedFrom_def)

lemma getI_Null:
  assumes "gridShape g" "getI g row col = Inr Null"
  shows "nat row < 9 \<and> nat col < 9 \<and> g ! nat row ! nat col = Null"
proof -
  from assms have r: "0 \<le> row" "row < 9"
    by (auto simp: getI_def gridShape_def split: if_splits)
  then have len: "length (g ! nat row) = 9"
    using gridShape_row [OF assms(1), of "nat row"] by simp
  from assms r len have "0 \<le> col" "nat col < 9"
    by (auto simp: getI_def cellAt_def split: if_splits)
  with assms r len show ?thesis
    by (auto simp: getI_def cellAt_def split: if_splits)
qed

lemma givenInvariant_select:
  "givenInvariant s \<Longrightarrow> handleCellClick row col s = Inr s' \<Longrightarrow> givenInvariant s'"
  by (auto simp: givenInvariant_def handleCellClick_def split: sum.splits if_splits)

lemma agreesOnGiven_enter:
  assumes shape: "gridShape orig" and p: "agreesOnGiven orig p"
    and r: "r < 9" and c: "c < 9" and editable: "orig ! r ! c = Null"
  shows "agreesOnGiven orig (setCell p r c v)"
  unfolding agreesOnGiven_def derivedFrom_def
proof (intro conjI allI impI)
  from p have ps: "gridShape p" and same: "derivedFrom p orig"
    by (simp_all add: agreesOnGiven_def)
  show "gridShape (setCell p r c v)" by (rule gridShape_setCell [OF ps])
  fix r' c' assume b: "r' < 9" "c' < 9" and given: "orig ! r' ! c' \<noteq> Null"
  with editable have "\<not> (r' = r \<and> c' = c)" by auto
  with setCell_nth [OF ps r c b, of v] same b given
  show "orig ! r' ! c' = setCell p r c v ! r' ! c'"
    by (simp add: derivedFrom_def)
qed

lemma givenInvariant_enter:
  assumes inv: "givenInvariant s" and ret: "handleNumberClick num s = Inr s'"
  shows "givenInvariant s'"
proof (cases "selectedCell s")
  case None
  with ret inv show ?thesis by (simp add: handleNumberClick_def)
next
  case (Some rc)
  from inv have shape: "gridShape (originalPuzzle s)"
    and p: "agreesOnGiven (originalPuzzle s) (puzzle s)"
    and h: "list_all (agreesOnGiven (originalPuzzle s)) (history s)"
    by (simp_all add: givenInvariant_def)
  show ?thesis
  proof (cases "getI (originalPuzzle s) (fst rc) (snd rc) = Inr Null")
    case False
    with ret inv Some show ?thesis
      by (auto simp: handleNumberClick_def split: sum.splits if_splits)
  next
    case True
    from getI_Null [OF shape True] have r: "nat (fst rc) < 9" and c: "nat (snd rc) < 9"
      and editable: "originalPuzzle s ! nat (fst rc) ! nat (snd rc) = Null" by simp_all
    let ?new = "setCell (puzzle s) (nat (fst rc)) (nat (snd rc)) (Num num)"
    from p have "gridShape (puzzle s)" by (simp add: agreesOnGiven_def)
    from gridShape_put [OF this r c] ret Some True
    have s': "s' = s\<lparr>history := take (historyIndex s + 1) (history s) @ [?new],
                      historyIndex := length (take (historyIndex s + 1) (history s) @ [?new]) - 1,
                      puzzle := ?new, selectedCell := None\<rparr>"
      by (simp add: handleNumberClick_def copyGrid_id Let_def)
    have new: "agreesOnGiven (originalPuzzle s) ?new"
      by (rule agreesOnGiven_enter [OF shape p r c editable])
    from h have "list_all (agreesOnGiven (originalPuzzle s)) (take (historyIndex s + 1) (history s))"
      by (auto simp: list_all_iff dest: in_set_takeD)
    with new inv show ?thesis
      by (simp add: s' givenInvariant_def)
  qed
qed

lemma givenInvariant_undo:
  "givenInvariant s \<Longrightarrow> undo s = Inr s' \<Longrightarrow> givenInvariant s'"
  by (auto simp: givenInvariant_def undo_def snapshotAt_def list_all_length
      split: sum.splits if_splits)

lemma givenInvariant_redo:
  "givenInvariant s \<Longrightarrow> redo s = Inr s' \<Longrightarrow> givenInvariant s'"
  by (auto simp: givenInvariant_def redo_def snapshotAt_def list_all_length
      split: sum.splits if_splits)

lemma mapE_all:
  "(\<And>x. x \<in> set xs \<Longrightarrow> f x = Inr (g x)) \<Longrightarrow> mapE f xs = Inr (map g xs)"
  by (induction xs) auto

lemma clearedGrid_given:
  assumes shape: "gridShape orig" and p: "agreesOnGiven orig p"
  shows "clearedGrid orig p = Inr orig"
proof -
  from p have ps: "gridShape p" and same: "derivedFrom p orig"
    by (simp_all add: agreesOnGiven_def)
  let ?cell = "\<lambda>ri ic. if orig ! ri ! fst ic = Null then Null else snd ic"
  let ?row = "\<lambda>ir. map (?cell (fst ir)) (enumerate 0 (snd ir))"
  have row: "mapE (clearCell orig (fst ir)) (enumerate 0 (snd ir)) = Inr (?row ir)"
    if "ir \<in> set (enumerate 0 p)" for ir
  proof (rule mapE_all)
    fix ic assume ic: "ic \<in> set (enumerate 0 (snd ir))"
    from that ps have "fst ir < 9" "length (snd ir) = 9"
      by (auto simp: in_set_enumerate_eq gridShape_def list_all_length)
    with ic have "fst ir < 9" "fst ic < 9" by (auto simp: in_set_enumerate_eq)
    then show "clearCell orig (fst ir) ic = Inr (?cell (fst ir) ic)"
      by (simp add: clearCell_def gridShape_get [OF shape])
  qed
  have "clearedGrid orig p = Inr (map ?row (enumerate 0 p))"
    unfolding clearedGrid_def by (rule mapE_all) (rule row)
  also have "map ?row (enumerate 0 p) = orig"
  proof (rule nth_equalityI)
    from shape ps show len: "length (map ?row (enumerate 0 p)) = length orig"
      by (simp add: gridShape_def)
    fix r assume "r < length (map ?row (enumerate 0 p))"
    with ps have r: "r < 9" by (simp add: gridShape_def)
    with ps have rp: "r < length p" by (simp add: gridShape_def)
    show "map ?row (enumerate 0 p) ! r = orig ! r"
    proof (rule nth_equalityI)
      show "length (map ?row (enumerate 0 p) ! r) = length (orig ! r)"
        using rp gridShape_row [OF ps r] gridShape_row [OF shape r]
        by (simp add: nth_enumerate_eq)
      fix c assume "c < length (map ?row (enumerate 0 p) ! r)"
      with rp gridShape_row [OF ps r] have c: "c < 9" by (simp add: nth_enumerate_eq)
      with gridShape_row [OF ps r] have cp: "c < length (p ! r)" by simp
      from same r c have "orig ! r ! c \<noteq> Null \<longrightarrow> orig ! r ! c = p ! r ! c"
        by (simp add: derivedFrom_def)
      with rp cp show "map ?row (enumerate 0 p) ! r ! c = orig ! r ! c"
        by (auto simp: nth_enumerate_eq)
    qed
  qed
  finally show ?thesis .
qed

lemma clearUserInputs_restores:
  assumes "givenInvariant s"
  shows "clearUserInputs s =
           Inr (s\<lparr>puzzle := originalPuzzle s, history := [originalPuzzle s], historyIndex := 0\<rparr>)"
  using assms clearedGrid_given [of "originalPuzzle s" "puzzle s"]
  by (simp add: clearUserInputs_def givenInvariant_def)

lemma givenInvariant_clear:
  "givenInvariant s \<Longrightarrow> clearUserInputs s = Inr s' \<Longrightarrow> givenInvariant s'"
  using clearUserInputs_restores [of s]
  by (auto simp: givenInvariant_def agreesOnGiven_self)

lemma createPuzzle_derived:
  assumes "gridShape sol" "\<forall>i. rnd i < 9" "createPuzzle rnd sol n = Some (Inr orig)"
  shows "gridShape orig \<and> derivedFrom sol orig"
  using removeCells_result [of rnd 0 sol n "Inr orig"] assms
  by (simp add: createPuzzle_def copyGrid_id removeCellsPost_def)

lemma givenInvariant_init:
  assumes "gridShape sol" "\<forall>i. rnd i < 9" "createPuzzle rnd sol n = Some (Inr orig)"
  shows "givenInvariant (initSession sol orig)"
  using createPuzzle_derived [OF assms]
  by (simp add: givenInvariant_def initSession_def copyGrid_id agreesOnGiven_self)

lemma givenInvariant_regenerate:
  assumes "shuffled shuffle" "\<forall>i. rnd i < 9" "regenerate shuffle rnd s = Some (Inr s')"
  shows "givenInvariant s'"
proof -
  from generateSudokuGrid_ok [of shuffle, OF shuffled_set [OF assms(1)]] obtain sol
    where sol: "generateSudokuGrid shuffle = Some (Inr sol)" "consistent sol" by blast
  with assms(3) obtain orig where orig: "createPuzzle rnd sol 40 = Some (Inr orig)"
    and s': "s' = s\<lparr>solution := sol, originalPuzzle := orig, puzzle := copyGrid orig,
                      history := [orig], historyIndex := 0\<rparr>"
    by (auto simp: regenerate_def split: option.splits sum.splits)
  from createPuzzle_derived [OF consistentD(1) [OF sol(2)] assms(2) orig] show ?thesis
    by (simp add: s' givenInvariant_def copyGrid_id agreesOnGiven_self)
qed

lemma givenInvariant_perform:
  assumes "givenInvariant s" "\<not> isReset x" "randomOk x" "perform x s = Some (Inr s')"
  shows "givenInvariant s'"
  using assms
  by (cases x)
    (auto intro: givenInvariant_select givenInvariant_enter givenInvariant_undo
      givenInvariant_redo givenInvariant_clear givenInvariant_regenerate)

lemma givenInvariant_run:
  "givenInvariant s \<Longrightarrow> noReset xs \<Longrightarrow> list_all randomOk xs \<Longrightarrow> run xs s = Some (Inr s')
   \<Longrightarrow> givenInvariant s'"
proof (induction xs arbitrary: s)
  case Nil
  then show ?case by simp
next
  case (Cons x xs)
  then obtain t where t: "perform x s = Some (Inr t)" and r: "run xs t = Some (Inr s')"
    by (auto split: option.splits sum.splits)
  from Cons.prems t have "givenInvariant t"
    by (auto intro: givenInvariant_perform)
  with Cons r show ?case by simp
qed

text \<open>
  On every run without \<^verbatim>\<open>reset\<close> from a session whose original puzzle was derived from
  its solution, each given cell holds the solution's value in the current puzzle, and
  \<^verbatim>\<open>clearUserInputs\<close> installs exactly the original puzzle.  The two theorems of section
  Reset show that a \<^verbatim>\<open>reset\<close> ends both.
\<close>

lemma given_cells_hold_solution:
  assumes "gridShape sol" "\<forall>i. rnd i < 9" "createPuzzle rnd sol 40 = Some (Inr orig)"
    and "noReset xs" "list_all randomOk xs" "run xs (initSession sol orig) = Some (Inr s)"
    and "r < 9" "c < 9" "originalPuzzle s ! r ! c \<noteq> Null"
  shows "puzzle s ! r ! c = solution s ! r ! c"
  using givenInvariant_run [OF givenInvariant_init [OF assms(1,2,3)] assms(4,5,6)] assms(7,8,9)
  by (rule given_is_solution)

lemma clearUserInputs_gives_original:
  assumes "gridShape sol" "\<forall>i. rnd i < 9" "createPuzzle rnd sol 40 = Some (Inr orig)"
    and "noReset xs" "list_all randomOk xs" "run xs (initSession sol orig) = Some (Inr s)"
  shows "clearUserInputs s =
           Inr (s\<lparr>puzzle := originalPuzzle s, history := [originalPuzzle s], historyIndex := 0\<rparr>)"
  using givenInvariant_run [OF givenInvariant_init [OF assms(1,2,3)] assms(4,5,6)]
  by (rule clearUserInputs_restores)

text \<open>
  The session that \<^verbatim>\<open>App\<close> starts with (lines 69-74, with the generator and the deriver
  run) satisfies both invariants, and its solution is a solved grid.
\<close>

lemma newSession_invariants:
  assumes "shuffled shuffle" "\<forall>i. rnd i < 9" "newSession shuffle rnd = Some (Inr s)"
  shows "historyInvariant s \<and> givenInvariant s \<and> validSolution (solution s)"
proof -
  from generateSudokuGrid_ok [of shuffle, OF shuffled_set [OF assms(1)]] obtain sol
    where sol: "generateSudokuGrid shuffle = Some (Inr sol)" "consistent sol" "noNull sol"
    by blast
  with assms(3) obtain orig where orig: "createPuzzle rnd sol 40 = Some (Inr orig)"
    and s: "s = initSession sol orig"
    by (auto simp: newSession_def split: option.splits sum.splits)
  from givenInvariant_init [OF consistentD(1) [OF sol(2)] assms(2) orig]
    historyInvariant_init [of sol orig] validSolutionI [OF sol(2,3)]
  show ?thesis by (simp add: s initSession_def)
qed

end
